theory Spec2Isabelle
  imports Main
begin

section \<open>The NML object model of \<^verbatim>\<open>lib/pynml/nml.py\<close>\<close>

text \<open>
  The module builds a graph of mutable Python objects (network objects and the value
  objects \<^verbatim>\<open>Location\<close>, \<^verbatim>\<open>Lifetime\<close>, \<^verbatim>\<open>Label\<close>) that refer to each other, and turns
  the graph into an element tree with the recursive method \<^verbatim>\<open>getNML\<close>.

  \<^item> Objects live in a store, a map from references to objects, because the relation
    collections hold references: an object may be shared, changed after it was related,
    and the graph may contain cycles.
  \<^item> A method that mutates takes the store and returns its outcome together with the
    store it leaves behind; a raised exception is the outcome \<open>Inl\<close>.
  \<^item> \<^verbatim>\<open>getNML\<close> recurses through the graph and performs no cycle detection. It takes the
    permitted recursion depth as fuel; running out of it is \<open>Inl RecursionError\<close>, which is
    how the interpreter ends an unbounded recursion. A serialization that returns is
    \<open>Inr\<close> of the element for some fuel.
  \<^item> Ten of the eleven subclass initialisers hand their keyword dictionary positionally
    to \<^verbatim>\<open>NetworkObject.__init__\<close>, which takes keywords only, so calling the class raises
    \<^verbatim>\<open>TypeError\<close>; only \<^verbatim>\<open>BidirectionalLink\<close> constructs. The methods are modelled on
    instances in any state, however they came to be; \<^verbatim>\<open>_kwargs\<close> is read by no method
    and is left out.
\<close>

type_synonym ref = nat

datatype error =
  IdError | ExistsDuringError | IsAliasError | CanProvidePortError
  | AttributeError | TypeError | RecursionError

subsection \<open>Element trees\<close>

text \<open>
  The module imports \<^verbatim>\<open>xml.etree.ElementTree\<close>. An element has a tag, an attribute
  dictionary and an ordered list of children. \<^verbatim>\<open>Element(tag, attrib={}, **extra)\<close> and
  \<^verbatim>\<open>SubElement(parent, tag, attrib={}, **extra)\<close> put their keyword arguments into the
  attribute dictionary: the call \<^verbatim>\<open>Element(name, nsmap=NAMESPACES)\<close> makes an element whose
  tag is the bare name and whose attribute \<^verbatim>\<open>nsmap\<close> is the dictionary \<^verbatim>\<open>NAMESPACES\<close>. An
  attribute value is therefore a string or that dictionary.
\<close>

datatype attr_value = Str string | Dict "(string \<times> string) list"

datatype element =
  Element (tag: string) (attrib: "(string \<times> attr_value) list") (children: "element list")

definition NAMESPACES :: "(string \<times> string) list" where
  "NAMESPACES = [(''nml'', ''http://schemas.ogf.org/nml/2013/05/base'')]"

text \<open>The keyword argument \<^verbatim>\<open>nsmap=NAMESPACES\<close> as it arrives in the attribute dictionary.\<close>

definition nsmap_keyword :: "(string \<times> attr_value) list" where
  "nsmap_keyword = [(''nsmap'', Dict NAMESPACES)]"

text \<open>\<^verbatim>\<open>d[k] = v\<close> on a dictionary: an existing key keeps its place, a new one goes last.\<close>

fun dict_set :: "(string \<times> 'v) list \<Rightarrow> string \<Rightarrow> 'v \<Rightarrow> (string \<times> 'v) list" where
  "dict_set [] k v = [(k, v)]"
| "dict_set ((k', v') # d) k v = (if k' = k then (k, v) # d else (k', v') # dict_set d k v)"

definition set_attrib :: "element \<Rightarrow> string \<Rightarrow> attr_value \<Rightarrow> element" where
  "set_attrib this k v = Element (tag this) (dict_set (attrib this) k v) (children this)"

definition append_child :: "element \<Rightarrow> element \<Rightarrow> element" where
  "append_child parent child = Element (tag parent) (attrib parent) (children parent @ [child])"

text \<open>
  \<^verbatim>\<open>if self.x: this.attrib[k] = self.x\<close> for an optional string: \<^verbatim>\<open>None\<close> and the empty
  string are both false.
\<close>

definition attrib_if_set :: "element \<Rightarrow> string \<Rightarrow> string option \<Rightarrow> element" where
  "attrib_if_set this k x =
     (case x of None \<Rightarrow> this | Some v \<Rightarrow> if v = [] then this else set_attrib this k (Str v))"

text \<open>\<^verbatim>\<open>if self.flag: this.attrib[k] = str(self.flag)\<close> for a boolean.\<close>

definition attrib_if_true :: "element \<Rightarrow> string \<Rightarrow> bool \<Rightarrow> element" where
  "attrib_if_true this k b = (if b then set_attrib this k (Str ''True'') else this)"

subsection \<open>Objects\<close>

text \<open>
  The attributes that \<^verbatim>\<open>NetworkObject.__init__\<close> assigns, and for each subclass the
  attributes its own initialiser adds. \<^verbatim>\<open>_identification\<close> is \<open>priv_identification\<close>, and so
  on for the other underscore attributes.
\<close>

record NetworkObject =
  exists_during_lifetimes :: "ref list"
  is_alias_network_objects :: "ref list"
  located_at_location :: "ref option"
  priv_identification :: "string option"
  priv_name :: "string option"
  priv_version :: "string option"

record Node =
  has_inbound_port_ports :: "ref list"
  has_outbound_port_ports :: "ref list"
  has_service_services :: "ref list"
  implemented_by_nodes :: "ref list"

record Port =
  has_label_label :: "ref option"
  has_service_services :: "ref list"
  is_sink_links :: "ref list"
  is_source_links :: "ref list"
  priv_encoding :: "string option"

text \<open>
  \<^verbatim>\<open>Link.__init__\<close> assigns \<^verbatim>\<open>has_label_labels\<close>; \<^verbatim>\<open>has_label_label\<close> is the attribute
  that \<^verbatim>\<open>Link.has_label\<close> creates, \<open>None\<close> as long as the instance does not have it.
\<close>

record Link =
  has_label_labels :: "ref option"
  is_serial_compound_link_links :: "ref list"
  priv_encoding :: "string option"
  no_return_traffic :: bool
  has_label_label :: "ref option"

record SwitchingService =
  has_inbound_port_ports :: "ref list"
  has_outbound_port_ports :: "ref list"
  provides_link_links :: "ref list"
  priv_encoding :: "string option"
  label_swapping :: bool

record AdaptationService =
  adaptation_function :: "string option"
  can_provide_port_ports :: "ref list"
  provides_port_ports :: "ref list"

record DeadaptationService =
  adaptation_function :: "string option"
  can_provide_port_ports :: "ref list"
  provides_port_ports :: "ref list"

record Topology =
  has_node_nodes :: "ref list"
  has_inbound_port_ports :: "ref list"
  has_outbound_port_ports :: "ref list"
  has_service_services :: "ref list"
  has_topology_topologies :: "ref list"

record PortGroup =
  has_label_group_group :: "ref option"
  has_port_ports :: "ref list"
  is_sink_link_groups :: "ref list"
  is_source_link_groups :: "ref list"
  priv_encoding :: "string option"

record LinkGroup =
  has_label_group_group :: "ref option"
  has_link_links :: "ref list"
  is_serial_compound_link_link_groups :: "ref list"
  priv_encoding :: "string option"

record BidirectionalPort =
  has_port_ports :: "ref list"
  priv_encoding :: "string option"

record BidirectionalLink =
  has_link_links :: "ref list"
  priv_encoding :: "string option"

record Location =
  priv_identification :: "string option"
  priv_name :: "string option"
  longitude :: "string option"
  latitude :: "string option"
  altitude :: "string option"
  unlocode :: "string option"
  address :: "string option"

record Lifetime =
  start :: "string option"
  end_time :: "string option"

record Label =
  labeltype :: "string option"
  label_value :: "string option"

record LabelGroup =
  labeltype :: string
  label_values :: string

datatype variant =
  Node Node | Port Port | Link Link
  | SwitchingService SwitchingService
  | AdaptationService AdaptationService
  | DeadaptationService DeadaptationService
  | Topology Topology | PortGroup PortGroup | LinkGroup LinkGroup
  | BidirectionalPort BidirectionalPort | BidirectionalLink BidirectionalLink

text \<open>
  An instance of a \<^verbatim>\<open>NetworkObject\<close> subclass is the base attributes together with those
  of its class; the other classes of the module stand alone.
\<close>

datatype obj =
  NetworkObj NetworkObject variant
  | Location Location | Lifetime Lifetime | Label Label
  | LabelGroup LabelGroup | OrderedList | ListItem

type_synonym store = "ref \<Rightarrow> obj option"

text \<open>\<^verbatim>\<open>x.__class__.__name__\<close>\<close>

fun variant_name :: "variant \<Rightarrow> string" where
  "variant_name (Node _) = ''Node''"
| "variant_name (Port _) = ''Port''"
| "variant_name (Link _) = ''Link''"
| "variant_name (SwitchingService _) = ''SwitchingService''"
| "variant_name (AdaptationService _) = ''AdaptationService''"
| "variant_name (DeadaptationService _) = ''DeadaptationService''"
| "variant_name (Topology _) = ''Topology''"
| "variant_name (PortGroup _) = ''PortGroup''"
| "variant_name (LinkGroup _) = ''LinkGroup''"
| "variant_name (BidirectionalPort _) = ''BidirectionalPort''"
| "variant_name (BidirectionalLink _) = ''BidirectionalLink''"

fun class_name :: "obj \<Rightarrow> string" where
  "class_name (NetworkObj _ v) = variant_name v"
| "class_name (Location _) = ''Location''"
| "class_name (Lifetime _) = ''Lifetime''"
| "class_name (Label _) = ''Label''"
| "class_name (LabelGroup _) = ''LabelGroup''"
| "class_name OrderedList = ''OrderedList''"
| "class_name ListItem = ''ListItem''"

subsection \<open>Serialization\<close>

text \<open>
  First the element that a serializer computes, as a value: where the source creates
  \<^verbatim>\<open>this\<close> inside \<^verbatim>\<open>parent\<close> and fills it afterwards, these definitions finish \<^verbatim>\<open>this\<close> and
  append it to the parent. The statements themselves, on a heap of objects and elements,
  follow further down, with the proof that they build this very element. The argument
  \<open>call\<close> stands for \<^verbatim>\<open>x.getNML(...)\<close> on a related object \<open>x\<close>.
\<close>

type_synonym getNML_call = "ref \<Rightarrow> error + element"

definition and_then :: "error + 'a \<Rightarrow> ('a \<Rightarrow> error + 'b) \<Rightarrow> error + 'b" where
  "and_then m f = (case m of Inl e \<Rightarrow> Inl e | Inr x \<Rightarrow> f x)"

text \<open>
  \<^verbatim>\<open>relation = etree.SubElement(this, 'Relation')\<close>,
  \<^verbatim>\<open>relation.attrib['type'] = ty\<close>, \<^verbatim>\<open>x.getNML(relation)\<close>.
\<close>

definition relation :: "getNML_call \<Rightarrow> string \<Rightarrow> ref \<Rightarrow> element \<Rightarrow> error + element" where
  "relation call ty x this =
     and_then (call x)
       (\<lambda>c. Inr (append_child this (Element ''Relation'' [(''type'', Str ty)] [c])))"

text \<open>\<^verbatim>\<open>x.getNML(this)\<close>: the related object becomes a direct child.\<close>

definition nested :: "getNML_call \<Rightarrow> ref \<Rightarrow> element \<Rightarrow> error + element" where
  "nested call x this = and_then (call x) (\<lambda>c. Inr (append_child this c))"

text \<open>\<^verbatim>\<open>for x in xs: body\<close>, left at the first exception.\<close>

fun for_each :: "(ref \<Rightarrow> element \<Rightarrow> error + element) \<Rightarrow> ref list \<Rightarrow> element \<Rightarrow> error + element" where
  "for_each body [] this = Inr this"
| "for_each body (x # xs) this = and_then (body x this) (for_each body xs)"

text \<open>\<^verbatim>\<open>if self.x: ...\<close> for an optional object: any object is true, \<^verbatim>\<open>None\<close> is false.\<close>

definition if_set :: "(ref \<Rightarrow> element \<Rightarrow> error + element) \<Rightarrow> ref option \<Rightarrow> element \<Rightarrow> error + element" where
  "if_set body x this = (case x of None \<Rightarrow> Inr this | Some r \<Rightarrow> body r this)"

definition NetworkObject_getNML :: "getNML_call \<Rightarrow> string \<Rightarrow> NetworkObject \<Rightarrow> error + element" where
  "NetworkObject_getNML call cls self =
     (let this = Element cls nsmap_keyword [];
          this = attrib_if_set this ''id'' (NetworkObject.priv_identification self);
          this = attrib_if_set this ''name'' (NetworkObject.priv_name self);
          this = attrib_if_set this ''version'' (priv_version self)
      in and_then (for_each (relation call ''isAlias'') (is_alias_network_objects self) this) (\<lambda>this.
         and_then (for_each (relation call ''existsDuring'') (exists_during_lifetimes self) this) (\<lambda>this.
         if_set (relation call ''locatedAt'') (located_at_location self) this)))"

definition Node_getNML :: "getNML_call \<Rightarrow> string \<Rightarrow> NetworkObject \<Rightarrow> Node \<Rightarrow> error + element" where
  "Node_getNML call cls base self =
     and_then (NetworkObject_getNML call cls base) (\<lambda>this.
     and_then (for_each (relation call ''hasInboundPort'') (Node.has_inbound_port_ports self) this) (\<lambda>this.
     and_then (for_each (relation call ''hasOutoundPort'') (Node.has_outbound_port_ports self) this) (\<lambda>this.
     and_then (for_each (relation call ''hasService'') (Node.has_service_services self) this) (\<lambda>this.
     for_each (nested call) (implemented_by_nodes self) this))))"

definition Port_getNML :: "getNML_call \<Rightarrow> string \<Rightarrow> NetworkObject \<Rightarrow> Port \<Rightarrow> error + element" where
  "Port_getNML call cls base self =
     and_then (NetworkObject_getNML call cls base) (\<lambda>this.
     let this = attrib_if_set this ''encoding'' (Port.priv_encoding self) in
     and_then (if_set (relation call ''hasLabel'') (Port.has_label_label self) this) (\<lambda>this.
     and_then (for_each (relation call ''hasService'') (Port.has_service_services self) this) (\<lambda>this.
     and_then (for_each (relation call ''isSink'') (is_sink_links self) this) (\<lambda>this.
     for_each (relation call ''isSource'') (is_source_links self) this))))"

definition Link_getNML :: "getNML_call \<Rightarrow> string \<Rightarrow> NetworkObject \<Rightarrow> Link \<Rightarrow> error + element" where
  "Link_getNML call cls base self =
     and_then (NetworkObject_getNML call cls base) (\<lambda>this.
     let this = attrib_if_set this ''encoding'' (Link.priv_encoding self);
         this = attrib_if_true this ''no_return_traffic'' (no_return_traffic self)
     in Inr this)"

definition SwitchingService_getNML ::
  "getNML_call \<Rightarrow> string \<Rightarrow> NetworkObject \<Rightarrow> SwitchingService \<Rightarrow> error + element" where
  "SwitchingService_getNML call cls base self =
     and_then (NetworkObject_getNML call cls base) (\<lambda>this.
     let this = attrib_if_set this ''encoding'' (SwitchingService.priv_encoding self);
         this = attrib_if_true this ''label_swapping'' (label_swapping self)
     in
     and_then (for_each (nested call) (SwitchingService.has_inbound_port_ports self) this) (\<lambda>this.
     and_then (for_each (nested call) (SwitchingService.has_outbound_port_ports self) this) (\<lambda>this.
     for_each (nested call) (provides_link_links self) this)))"

definition AdaptationService_getNML ::
  "getNML_call \<Rightarrow> string \<Rightarrow> NetworkObject \<Rightarrow> AdaptationService \<Rightarrow> error + element" where
  "AdaptationService_getNML call cls base self =
     and_then (NetworkObject_getNML call cls base) (\<lambda>this.
     let this = attrib_if_set this ''adaptation_function'' (AdaptationService.adaptation_function self) in
     and_then (for_each (nested call) (AdaptationService.can_provide_port_ports self) this) (\<lambda>this.
     for_each (nested call) (AdaptationService.provides_port_ports self) this))"

definition DeadaptationService_getNML ::
  "getNML_call \<Rightarrow> string \<Rightarrow> NetworkObject \<Rightarrow> DeadaptationService \<Rightarrow> error + element" where
  "DeadaptationService_getNML call cls base self =
     and_then (NetworkObject_getNML call cls base) (\<lambda>this.
     let this = attrib_if_set this ''adaptation_function'' (DeadaptationService.adaptation_function self) in
     and_then (for_each (nested call) (DeadaptationService.can_provide_port_ports self) this) (\<lambda>this.
     for_each (nested call) (DeadaptationService.provides_port_ports self) this))"

definition Topology_getNML :: "getNML_call \<Rightarrow> string \<Rightarrow> NetworkObject \<Rightarrow> Topology \<Rightarrow> error + element" where
  "Topology_getNML call cls base self =
     and_then (NetworkObject_getNML call cls base) (\<lambda>this.
     and_then (for_each (relation call ''hasNode'') (has_node_nodes self) this) (\<lambda>this.
     and_then (for_each (relation call ''hasInboundPort'') (Topology.has_inbound_port_ports self) this) (\<lambda>this.
     and_then (for_each (relation call ''hasOutboundPort'') (Topology.has_outbound_port_ports self) this) (\<lambda>this.
     and_then (for_each (relation call ''hasService'') (Topology.has_service_services self) this) (\<lambda>this.
     for_each (relation call ''hasTopology'') (has_topology_topologies self) this)))))"

text \<open>These three create their element without keyword arguments.\<close>

definition Location_getNML :: "Location \<Rightarrow> element" where
  "Location_getNML self =
     (let this = Element ''Location'' [] [];
          this = attrib_if_set this ''id'' (Location.priv_identification self);
          this = attrib_if_set this ''name'' (Location.priv_name self);
          this = attrib_if_set this ''long'' (longitude self);
          this = attrib_if_set this ''lat'' (latitude self);
          this = attrib_if_set this ''alt'' (altitude self);
          this = attrib_if_set this ''unlocode'' (unlocode self);
          this = attrib_if_set this ''address'' (address self)
      in this)"

definition Lifetime_getNML :: "Lifetime \<Rightarrow> element" where
  "Lifetime_getNML self =
     (let this = Element ''Lifetime'' [] [];
          this = attrib_if_set this ''start'' (start self);
          this = attrib_if_set this ''end'' (end_time self)
      in this)"

definition Label_getNML :: "Label \<Rightarrow> element" where
  "Label_getNML self =
     (let this = Element ''Label'' [] [];
          this = attrib_if_set this ''labeltype'' (Label.labeltype self);
          this = attrib_if_set this ''value'' (label_value self)
      in this)"

text \<open>
  Method resolution for \<^verbatim>\<open>x.getNML\<close>: the class's own method where it defines one, the
  inherited \<^verbatim>\<open>NetworkObject.getNML\<close> for the four group classes that define none, and
  \<^verbatim>\<open>AttributeError\<close> for the classes that have no such method.
\<close>

fun obj_getNML :: "getNML_call \<Rightarrow> obj \<Rightarrow> error + element" where
  "obj_getNML call (NetworkObj base (Node n)) = Node_getNML call ''Node'' base n"
| "obj_getNML call (NetworkObj base (Port p)) = Port_getNML call ''Port'' base p"
| "obj_getNML call (NetworkObj base (Link l)) = Link_getNML call ''Link'' base l"
| "obj_getNML call (NetworkObj base (SwitchingService x)) =
     SwitchingService_getNML call ''SwitchingService'' base x"
| "obj_getNML call (NetworkObj base (AdaptationService x)) =
     AdaptationService_getNML call ''AdaptationService'' base x"
| "obj_getNML call (NetworkObj base (DeadaptationService x)) =
     DeadaptationService_getNML call ''DeadaptationService'' base x"
| "obj_getNML call (NetworkObj base (Topology t)) = Topology_getNML call ''Topology'' base t"
| "obj_getNML call (NetworkObj base (PortGroup g)) = NetworkObject_getNML call ''PortGroup'' base"
| "obj_getNML call (NetworkObj base (LinkGroup g)) = NetworkObject_getNML call ''LinkGroup'' base"
| "obj_getNML call (NetworkObj base (BidirectionalPort g)) =
     NetworkObject_getNML call ''BidirectionalPort'' base"
| "obj_getNML call (NetworkObj base (BidirectionalLink g)) =
     NetworkObject_getNML call ''BidirectionalLink'' base"
| "obj_getNML call (Location l) = Inr (Location_getNML l)"
| "obj_getNML call (Lifetime l) = Inr (Lifetime_getNML l)"
| "obj_getNML call (Label l) = Inr (Label_getNML l)"
| "obj_getNML call (LabelGroup g) = Inl AttributeError"
| "obj_getNML call OrderedList = Inl AttributeError"
| "obj_getNML call ListItem = Inl AttributeError"

text \<open>
  \<open>getNML n s r\<close> is \<^verbatim>\<open>r.getNML()\<close> in the store \<open>s\<close> with recursion depth \<open>n\<close>. Every
  reference of the program is to an object; a reference that the store does not hold has
  no method to call.
\<close>

primrec getNML :: "nat \<Rightarrow> store \<Rightarrow> ref \<Rightarrow> error + element" where
  "getNML 0 s r = Inl RecursionError"
| "getNML (Suc n) s r =
     (case s r of None \<Rightarrow> Inl AttributeError | Some ob \<Rightarrow> obj_getNML (getNML n s) ob)"

subsection \<open>Methods that change the graph\<close>

text \<open>
  A method takes the store and returns what the call answers, \<open>Inl\<close> for a raised
  exception, with the store it leaves. The functions carry the name of the class that
  defines the method; on a receiver of another class that method is not the one the
  attribute lookup finds, and the model answers \<^verbatim>\<open>AttributeError\<close>.
\<close>

type_synonym 'a action = "store \<Rightarrow> (error + 'a) \<times> store"

text \<open>One call after the other; an exception ends the sequence.\<close>

definition seq :: "unit action \<Rightarrow> 'a action \<Rightarrow> 'a action" where
  "seq m1 m2 s = (case m1 s of (Inl e, s') \<Rightarrow> (Inl e, s') | (Inr _, s') \<Rightarrow> m2 s')"

text \<open>
  The \<^verbatim>\<open>identification\<close> property of \<^verbatim>\<open>NetworkObject\<close>. \<open>is_valid_uri u\<close> stands for
  \<^verbatim>\<open>rfc3986.is_valid_uri(u, require_scheme=True)\<close>, a function of another package.
\<close>

definition NetworkObject_identification :: "ref \<Rightarrow> string option action" where
  "NetworkObject_identification self s =
     (case s self of
        Some (NetworkObj base v) \<Rightarrow> (Inr (NetworkObject.priv_identification base), s)
      | _ \<Rightarrow> (Inl AttributeError, s))"

definition NetworkObject_identification_setter ::
  "(string \<Rightarrow> bool) \<Rightarrow> ref \<Rightarrow> string \<Rightarrow> unit action" where
  "NetworkObject_identification_setter is_valid_uri self identification s =
     (case s self of
        Some (NetworkObj base v) \<Rightarrow>
          if is_valid_uri identification
          then (Inr (), s(self \<mapsto>
                  NetworkObj (base\<lparr>NetworkObject.priv_identification := Some identification\<rparr>) v))
          else (Inl IdError, s)
      | _ \<Rightarrow> (Inl AttributeError, s))"

definition NetworkObject_is_alias :: "ref \<Rightarrow> ref \<Rightarrow> unit action" where
  "NetworkObject_is_alias self network_object s =
     (case s self of
        Some (NetworkObj base v) \<Rightarrow>
          (case s network_object of
             Some other \<Rightarrow>
               if class_name (NetworkObj base v) \<noteq> class_name other then (Inl IsAliasError, s)
               else (Inr (), s(self \<mapsto>
                       NetworkObj (base\<lparr>is_alias_network_objects :=
                         is_alias_network_objects base @ [network_object]\<rparr>) v))
           | None \<Rightarrow> (Inl AttributeError, s))
      | _ \<Rightarrow> (Inl AttributeError, s))"

definition Node_has_inbound_port :: "ref \<Rightarrow> ref \<Rightarrow> unit action" where
  "Node_has_inbound_port self port s =
     (case s self of
        Some (NetworkObj base (Node n)) \<Rightarrow>
          (Inr (), s(self \<mapsto> NetworkObj base (Node (n\<lparr>Node.has_inbound_port_ports :=
                     Node.has_inbound_port_ports n @ [port]\<rparr>))))
      | _ \<Rightarrow> (Inl AttributeError, s))"

definition Node_has_outbound_port :: "ref \<Rightarrow> ref \<Rightarrow> unit action" where
  "Node_has_outbound_port self port s =
     (case s self of
        Some (NetworkObj base (Node n)) \<Rightarrow>
          (Inr (), s(self \<mapsto> NetworkObj base (Node (n\<lparr>Node.has_outbound_port_ports :=
                     Node.has_outbound_port_ports n @ [port]\<rparr>))))
      | _ \<Rightarrow> (Inl AttributeError, s))"

definition Topology_has_node :: "ref \<Rightarrow> ref \<Rightarrow> unit action" where
  "Topology_has_node self node s =
     (case s self of
        Some (NetworkObj base (Topology t)) \<Rightarrow>
          (Inr (), s(self \<mapsto> NetworkObj base (Topology (t\<lparr>has_node_nodes :=
                     has_node_nodes t @ [node]\<rparr>))))
      | _ \<Rightarrow> (Inl AttributeError, s))"

definition Topology_has_outbound_port :: "ref \<Rightarrow> ref \<Rightarrow> unit action" where
  "Topology_has_outbound_port self port s =
     (case s self of
        Some (NetworkObj base (Topology t)) \<Rightarrow>
          (Inr (), s(self \<mapsto> NetworkObj base (Topology (t\<lparr>Topology.has_outbound_port_ports :=
                     Topology.has_outbound_port_ports t @ [port]\<rparr>))))
      | _ \<Rightarrow> (Inl AttributeError, s))"

text \<open>\<^verbatim>\<open>Link.has_label\<close> assigns \<^verbatim>\<open>self.has_label_label\<close>.\<close>

definition Link_has_label :: "ref \<Rightarrow> ref \<Rightarrow> unit action" where
  "Link_has_label self label s =
     (case s self of
        Some (NetworkObj base (Link l)) \<Rightarrow>
          (Inr (), s(self \<mapsto> NetworkObj base (Link (l\<lparr>Link.has_label_label := Some label\<rparr>))))
      | _ \<Rightarrow> (Inl AttributeError, s))"



text \<open>The \<^verbatim>\<open>encoding\<close> property of \<^verbatim>\<open>PortGroup\<close>; \<^verbatim>\<open>LinkGroup\<close> has the attribute
  \<^verbatim>\<open>_encoding\<close> and no property for it.\<close>

definition PortGroup_encoding_setter :: "ref \<Rightarrow> string \<Rightarrow> unit action" where
  "PortGroup_encoding_setter self encoding s =
     (case s self of
        Some (NetworkObj base (PortGroup g)) \<Rightarrow>
          (Inr (), s(self \<mapsto> NetworkObj base
                     (PortGroup (g\<lparr>PortGroup.priv_encoding := Some encoding\<rparr>))))
      | _ \<Rightarrow> (Inl AttributeError, s))"

definition AdaptationService_can_provide_port :: "ref \<Rightarrow> ref \<Rightarrow> unit action" where
  "AdaptationService_can_provide_port self port s =
     (case s self of
        Some (NetworkObj base (AdaptationService a)) \<Rightarrow>
          (case s port of
             Some p \<Rightarrow>
               if class_name p \<notin> set [''Port'', ''PortGroup''] then (Inl CanProvidePortError, s)
               else (Inr (), s(self \<mapsto> NetworkObj base
                       (AdaptationService (a\<lparr>AdaptationService.can_provide_port_ports :=
                          AdaptationService.can_provide_port_ports a @ [port]\<rparr>))))
           | None \<Rightarrow> (Inl AttributeError, s))
      | _ \<Rightarrow> (Inl AttributeError, s))"



subsection \<open>Construction\<close>

text \<open>
  \<^verbatim>\<open>NetworkObject.__init__(self, **kwargs)\<close> has no positional parameter besides
  \<^verbatim>\<open>self\<close>: called with \<open>positional\<close> further positional arguments it raises
  \<^verbatim>\<open>TypeError\<close> unless there are none, and otherwise assigns the base attributes.
\<close>

definition NetworkObject_blank :: NetworkObject where
  "NetworkObject_blank =
     \<lparr>exists_during_lifetimes = [], is_alias_network_objects = [], located_at_location = None,
      NetworkObject.priv_identification = None, NetworkObject.priv_name = None,
      priv_version = None\<rparr>"

definition NetworkObject_init :: "nat \<Rightarrow> error + NetworkObject" where
  "NetworkObject_init positional =
     (if positional = 0 then Inr NetworkObject_blank else Inl TypeError)"

text \<open>
  For each subclass: \<open>X_attrs\<close> are the attributes its initialiser assigns after the call of
  the base initialiser; \<open>X_new\<close> is the call \<^verbatim>\<open>X()\<close>, in which the base initialiser gets the
  positional arguments the source gives it (\<^verbatim>\<open>super(X, self).__init__(kwargs)\<close> gives one,
  \<^verbatim>\<open>super(BidirectionalLink, self).__init__()\<close> gives none); \<open>X_blank\<close> is an instance
  that holds all these attributes with the values the two bodies name. The blank
  instances are the sample objects of the examples below; only for \<^verbatim>\<open>BidirectionalLink\<close> is
  the blank instance what the call of the class returns.
\<close>

definition Node_attrs :: Node where
  "Node_attrs =
     \<lparr>Node.has_inbound_port_ports = [], Node.has_outbound_port_ports = [],
      Node.has_service_services = [], implemented_by_nodes = []\<rparr>"

definition Node_new :: "error + obj" where
  "Node_new =
     and_then (NetworkObject_init 1) (\<lambda>base. Inr (NetworkObj base (Node Node_attrs)))"

definition Node_blank :: obj where
  "Node_blank = NetworkObj NetworkObject_blank (Node Node_attrs)"

definition Port_attrs :: Port where
  "Port_attrs =
     \<lparr>Port.has_label_label = None, Port.has_service_services = [], is_sink_links = [],
      is_source_links = [], Port.priv_encoding = None\<rparr>"

definition Port_new :: "error + obj" where
  "Port_new =
     and_then (NetworkObject_init 1) (\<lambda>base. Inr (NetworkObj base (Port Port_attrs)))"

definition Port_blank :: obj where
  "Port_blank = NetworkObj NetworkObject_blank (Port Port_attrs)"

definition Link_attrs :: Link where
  "Link_attrs =
     \<lparr>has_label_labels = None, is_serial_compound_link_links = [],
      Link.priv_encoding = None, no_return_traffic = False, Link.has_label_label = None\<rparr>"

definition Link_new :: "error + obj" where
  "Link_new =
     and_then (NetworkObject_init 1) (\<lambda>base. Inr (NetworkObj base (Link Link_attrs)))"

definition Link_blank :: obj where
  "Link_blank = NetworkObj NetworkObject_blank (Link Link_attrs)"

definition SwitchingService_attrs :: SwitchingService where
  "SwitchingService_attrs =
     \<lparr>SwitchingService.has_inbound_port_ports = [],
      SwitchingService.has_outbound_port_ports = [], provides_link_links = [],
      SwitchingService.priv_encoding = None, label_swapping = False\<rparr>"

definition SwitchingService_new :: "error + obj" where
  "SwitchingService_new =
     and_then (NetworkObject_init 1) (\<lambda>base. Inr (NetworkObj base (SwitchingService SwitchingService_attrs)))"

definition SwitchingService_blank :: obj where
  "SwitchingService_blank = NetworkObj NetworkObject_blank (SwitchingService SwitchingService_attrs)"

definition AdaptationService_attrs :: AdaptationService where
  "AdaptationService_attrs =
     \<lparr>AdaptationService.adaptation_function = None,
      AdaptationService.can_provide_port_ports = [],
      AdaptationService.provides_port_ports = []\<rparr>"

definition AdaptationService_new :: "error + obj" where
  "AdaptationService_new =
     and_then (NetworkObject_init 1) (\<lambda>base. Inr (NetworkObj base (AdaptationService AdaptationService_attrs)))"

definition AdaptationService_blank :: obj where
  "AdaptationService_blank = NetworkObj NetworkObject_blank (AdaptationService AdaptationService_attrs)"

definition DeadaptationService_attrs :: DeadaptationService where
  "DeadaptationService_attrs =
     \<lparr>DeadaptationService.adaptation_function = None,
      DeadaptationService.can_provide_port_ports = [],
      DeadaptationService.provides_port_ports = []\<rparr>"

definition DeadaptationService_new :: "error + obj" where
  "DeadaptationService_new =
     and_then (NetworkObject_init 1) (\<lambda>base. Inr (NetworkObj base (DeadaptationService DeadaptationService_attrs)))"

definition DeadaptationService_blank :: obj where
  "DeadaptationService_blank = NetworkObj NetworkObject_blank (DeadaptationService DeadaptationService_attrs)"

definition Topology_attrs :: Topology where
  "Topology_attrs =
     \<lparr>has_node_nodes = [], Topology.has_inbound_port_ports = [],
      Topology.has_outbound_port_ports = [], Topology.has_service_services = [],
      has_topology_topologies = []\<rparr>"

definition Topology_new :: "error + obj" where
  "Topology_new =
     and_then (NetworkObject_init 1) (\<lambda>base. Inr (NetworkObj base (Topology Topology_attrs)))"

definition Topology_blank :: obj where
  "Topology_blank = NetworkObj NetworkObject_blank (Topology Topology_attrs)"

definition PortGroup_attrs :: PortGroup where
  "PortGroup_attrs =
     \<lparr>PortGroup.has_label_group_group = None, PortGroup.has_port_ports = [],
      is_sink_link_groups = [], is_source_link_groups = [], PortGroup.priv_encoding = None\<rparr>"

definition PortGroup_new :: "error + obj" where
  "PortGroup_new =
     and_then (NetworkObject_init 1) (\<lambda>base. Inr (NetworkObj base (PortGroup PortGroup_attrs)))"

definition PortGroup_blank :: obj where
  "PortGroup_blank = NetworkObj NetworkObject_blank (PortGroup PortGroup_attrs)"

definition LinkGroup_attrs :: LinkGroup where
  "LinkGroup_attrs =
     \<lparr>LinkGroup.has_label_group_group = None, LinkGroup.has_link_links = [],
      is_serial_compound_link_link_groups = [], LinkGroup.priv_encoding = None\<rparr>"

definition LinkGroup_new :: "error + obj" where
  "LinkGroup_new =
     and_then (NetworkObject_init 1) (\<lambda>base. Inr (NetworkObj base (LinkGroup LinkGroup_attrs)))"

definition LinkGroup_blank :: obj where
  "LinkGroup_blank = NetworkObj NetworkObject_blank (LinkGroup LinkGroup_attrs)"

definition BidirectionalPort_attrs :: BidirectionalPort where
  "BidirectionalPort_attrs =
     \<lparr>BidirectionalPort.has_port_ports = [], BidirectionalPort.priv_encoding = None\<rparr>"

definition BidirectionalPort_new :: "error + obj" where
  "BidirectionalPort_new =
     and_then (NetworkObject_init 1) (\<lambda>base. Inr (NetworkObj base (BidirectionalPort BidirectionalPort_attrs)))"

definition BidirectionalPort_blank :: obj where
  "BidirectionalPort_blank = NetworkObj NetworkObject_blank (BidirectionalPort BidirectionalPort_attrs)"

definition BidirectionalLink_attrs :: BidirectionalLink where
  "BidirectionalLink_attrs =
     \<lparr>BidirectionalLink.has_link_links = [], BidirectionalLink.priv_encoding = None\<rparr>"

definition BidirectionalLink_new :: "error + obj" where
  "BidirectionalLink_new =
     and_then (NetworkObject_init 0) (\<lambda>base. Inr (NetworkObj base (BidirectionalLink BidirectionalLink_attrs)))"

definition BidirectionalLink_blank :: obj where
  "BidirectionalLink_blank = NetworkObj NetworkObject_blank (BidirectionalLink BidirectionalLink_attrs)"

text \<open>\<^verbatim>\<open>Location()\<close> and \<^verbatim>\<open>Label()\<close> call no base initialiser and construct.\<close>

definition Location_blank :: obj where
  "Location_blank = Location
     \<lparr>Location.priv_identification = None, Location.priv_name = None, longitude = None,
      latitude = None, altitude = None, unlocode = None, address = None\<rparr>"

definition Label_blank :: obj where
  "Label_blank = Label \<lparr>Label.labeltype = None, label_value = None\<rparr>"

subsection \<open>Serialization as the source writes it\<close>

text \<open>
  The source does not build an element as a value: it creates \<^verbatim>\<open>this\<close> inside its parent
  and fills it afterwards, element by element. The definitions of this part follow the
  statements of the \<^verbatim>\<open>getNML\<close> methods one by one, on a heap that holds the objects of the
  graph and the elements alike: a list of cells, each an object or an element, in which
  the address of a cell is its index. An object refers to other objects, and an element
  to its children, by address.
\<close>

record enode =
  e_tag :: string
  e_attrib :: "(string \<times> attr_value) list"
  e_children :: "ref list"

datatype cell = Obj obj | Elem enode

type_synonym heap = "cell list"

type_synonym 'a prog = "heap \<Rightarrow> (error + 'a) \<times> heap"

text \<open>
  A statement takes the heap and returns its outcome with the heap it leaves, also when
  it raises.
\<close>

definition ret :: "'a \<Rightarrow> 'a prog" where
  "ret x h = (Inr x, h)"

definition bind_h :: "'a prog \<Rightarrow> ('a \<Rightarrow> 'b prog) \<Rightarrow> 'b prog" where
  "bind_h p f h = (case p h of (Inl e, h') \<Rightarrow> (Inl e, h') | (Inr x, h') \<Rightarrow> f x h')"

definition then_h :: "'a prog \<Rightarrow> 'b prog \<Rightarrow> 'b prog" where
  "then_h p q = bind_h p (\<lambda>_. q)"

text \<open>
  \<^verbatim>\<open>Element(tag, **extra)\<close> creates an element, a new cell; \<^verbatim>\<open>SubElement(parent, tag, **extra)\<close>
  creates one and appends it to the children of \<^verbatim>\<open>parent\<close>; \<^verbatim>\<open>this.attrib[k] = v\<close> assigns in the
  attribute dictionary of the cell \<^verbatim>\<open>this\<close>.
\<close>

definition etree_Element :: "string \<Rightarrow> (string \<times> attr_value) list \<Rightarrow> ref prog" where
  "etree_Element tg extra h =
     (Inr (length h), h @ [Elem \<lparr>e_tag = tg, e_attrib = extra, e_children = []\<rparr>])"

definition etree_SubElement :: "ref \<Rightarrow> string \<Rightarrow> (string \<times> attr_value) list \<Rightarrow> ref prog" where
  "etree_SubElement parent tg extra h =
     (if parent < length h
      then (case h ! parent of
              Elem p \<Rightarrow>
                (Inr (length h),
                 h[parent := Elem (p\<lparr>e_children := e_children p @ [length h]\<rparr>)]
                 @ [Elem \<lparr>e_tag = tg, e_attrib = extra, e_children = []\<rparr>])
            | Obj ob \<Rightarrow> (Inl TypeError, h))
      else (Inl TypeError, h))"

definition attrib_setitem :: "ref \<Rightarrow> string \<Rightarrow> attr_value \<Rightarrow> unit prog" where
  "attrib_setitem this k v h =
     (if this < length h
      then (case h ! this of
              Elem p \<Rightarrow> (Inr (), h[this := Elem (p\<lparr>e_attrib := dict_set (e_attrib p) k v\<rparr>)])
            | Obj ob \<Rightarrow> (Inl AttributeError, h))
      else (Inl AttributeError, h))"

text \<open>\<^verbatim>\<open>if parent is None: this = Element(...) else: this = SubElement(parent, ...)\<close>\<close>

definition new_element :: "ref option \<Rightarrow> string \<Rightarrow> (string \<times> attr_value) list \<Rightarrow> ref prog" where
  "new_element parent tg extra =
     (case parent of None \<Rightarrow> etree_Element tg extra | Some p \<Rightarrow> etree_SubElement p tg extra)"

text \<open>
  The statements of the serializers; \<open>call x parent\<close> stands for \<^verbatim>\<open>x.getNML(parent)\<close>.
\<close>

type_synonym getNML_h_call = "ref \<Rightarrow> ref option \<Rightarrow> ref prog"

definition attrib_if_set_h :: "ref \<Rightarrow> string \<Rightarrow> string option \<Rightarrow> unit prog" where
  "attrib_if_set_h this k x =
     (case x of None \<Rightarrow> ret ()
      | Some v \<Rightarrow> if v = [] then ret () else attrib_setitem this k (Str v))"

definition attrib_if_true_h :: "ref \<Rightarrow> string \<Rightarrow> bool \<Rightarrow> unit prog" where
  "attrib_if_true_h this k b = (if b then attrib_setitem this k (Str ''True'') else ret ())"

definition relation_h :: "getNML_h_call \<Rightarrow> string \<Rightarrow> ref \<Rightarrow> ref \<Rightarrow> unit prog" where
  "relation_h call ty x this =
     bind_h (etree_SubElement this ''Relation'' []) (\<lambda>relation.
     then_h (attrib_setitem relation ''type'' (Str ty))
    (then_h (call x (Some relation)) (ret ())))"

definition nested_h :: "getNML_h_call \<Rightarrow> ref \<Rightarrow> ref \<Rightarrow> unit prog" where
  "nested_h call x this = then_h (call x (Some this)) (ret ())"

fun for_each_h :: "(ref \<Rightarrow> ref \<Rightarrow> unit prog) \<Rightarrow> ref list \<Rightarrow> ref \<Rightarrow> unit prog" where
  "for_each_h body [] this = ret ()"
| "for_each_h body (x # xs) this = then_h (body x this) (for_each_h body xs this)"

definition if_set_h :: "(ref \<Rightarrow> ref \<Rightarrow> unit prog) \<Rightarrow> ref option \<Rightarrow> ref \<Rightarrow> unit prog" where
  "if_set_h body x this = (case x of None \<Rightarrow> ret () | Some r \<Rightarrow> body r this)"

definition NetworkObject_getNML_h ::
  "getNML_h_call \<Rightarrow> string \<Rightarrow> NetworkObject \<Rightarrow> ref option \<Rightarrow> ref prog" where
  "NetworkObject_getNML_h call cls self = (\<lambda>parent.
     bind_h (new_element parent cls nsmap_keyword) (\<lambda>this.
     then_h (attrib_if_set_h this ''id'' (NetworkObject.priv_identification self))
    (then_h (attrib_if_set_h this ''name'' (NetworkObject.priv_name self))
    (then_h (attrib_if_set_h this ''version'' (priv_version self))
    (then_h (for_each_h (relation_h call ''isAlias'') (is_alias_network_objects self) this)
    (then_h (for_each_h (relation_h call ''existsDuring'') (exists_during_lifetimes self) this)
    (then_h (if_set_h (relation_h call ''locatedAt'') (located_at_location self) this)
    (ret this))))))))"

definition Node_getNML_h ::
  "getNML_h_call \<Rightarrow> string \<Rightarrow> NetworkObject \<Rightarrow> Node \<Rightarrow> ref option \<Rightarrow> ref prog" where
  "Node_getNML_h call cls base self = (\<lambda>parent.
     bind_h (NetworkObject_getNML_h call cls base parent) (\<lambda>this.
     then_h (for_each_h (relation_h call ''hasInboundPort'') (Node.has_inbound_port_ports self) this)
    (then_h (for_each_h (relation_h call ''hasOutoundPort'') (Node.has_outbound_port_ports self) this)
    (then_h (for_each_h (relation_h call ''hasService'') (Node.has_service_services self) this)
    (then_h (for_each_h (nested_h call) (implemented_by_nodes self) this)
    (ret this))))))"

definition Port_getNML_h ::
  "getNML_h_call \<Rightarrow> string \<Rightarrow> NetworkObject \<Rightarrow> Port \<Rightarrow> ref option \<Rightarrow> ref prog" where
  "Port_getNML_h call cls base self = (\<lambda>parent.
     bind_h (NetworkObject_getNML_h call cls base parent) (\<lambda>this.
     then_h (attrib_if_set_h this ''encoding'' (Port.priv_encoding self))
    (then_h (if_set_h (relation_h call ''hasLabel'') (Port.has_label_label self) this)
    (then_h (for_each_h (relation_h call ''hasService'') (Port.has_service_services self) this)
    (then_h (for_each_h (relation_h call ''isSink'') (is_sink_links self) this)
    (then_h (for_each_h (relation_h call ''isSource'') (is_source_links self) this)
    (ret this)))))))"

definition Link_getNML_h ::
  "getNML_h_call \<Rightarrow> string \<Rightarrow> NetworkObject \<Rightarrow> Link \<Rightarrow> ref option \<Rightarrow> ref prog" where
  "Link_getNML_h call cls base self = (\<lambda>parent.
     bind_h (NetworkObject_getNML_h call cls base parent) (\<lambda>this.
     then_h (attrib_if_set_h this ''encoding'' (Link.priv_encoding self))
    (then_h (attrib_if_true_h this ''no_return_traffic'' (no_return_traffic self))
    (ret this))))"

definition SwitchingService_getNML_h ::
  "getNML_h_call \<Rightarrow> string \<Rightarrow> NetworkObject \<Rightarrow> SwitchingService \<Rightarrow> ref option \<Rightarrow> ref prog" where
  "SwitchingService_getNML_h call cls base self = (\<lambda>parent.
     bind_h (NetworkObject_getNML_h call cls base parent) (\<lambda>this.
     then_h (attrib_if_set_h this ''encoding'' (SwitchingService.priv_encoding self))
    (then_h (attrib_if_true_h this ''label_swapping'' (label_swapping self))
    (then_h (for_each_h (nested_h call) (SwitchingService.has_inbound_port_ports self) this)
    (then_h (for_each_h (nested_h call) (SwitchingService.has_outbound_port_ports self) this)
    (then_h (for_each_h (nested_h call) (provides_link_links self) this)
    (ret this)))))))"

definition AdaptationService_getNML_h ::
  "getNML_h_call \<Rightarrow> string \<Rightarrow> NetworkObject \<Rightarrow> AdaptationService \<Rightarrow> ref option \<Rightarrow> ref prog" where
  "AdaptationService_getNML_h call cls base self = (\<lambda>parent.
     bind_h (NetworkObject_getNML_h call cls base parent) (\<lambda>this.
     then_h (attrib_if_set_h this ''adaptation_function''
               (AdaptationService.adaptation_function self))
    (then_h (for_each_h (nested_h call) (AdaptationService.can_provide_port_ports self) this)
    (then_h (for_each_h (nested_h call) (AdaptationService.provides_port_ports self) this)
    (ret this)))))"

definition DeadaptationService_getNML_h ::
  "getNML_h_call \<Rightarrow> string \<Rightarrow> NetworkObject \<Rightarrow> DeadaptationService \<Rightarrow> ref option \<Rightarrow> ref prog"
  where
  "DeadaptationService_getNML_h call cls base self = (\<lambda>parent.
     bind_h (NetworkObject_getNML_h call cls base parent) (\<lambda>this.
     then_h (attrib_if_set_h this ''adaptation_function''
               (DeadaptationService.adaptation_function self))
    (then_h (for_each_h (nested_h call) (DeadaptationService.can_provide_port_ports self) this)
    (then_h (for_each_h (nested_h call) (DeadaptationService.provides_port_ports self) this)
    (ret this)))))"

definition Topology_getNML_h ::
  "getNML_h_call \<Rightarrow> string \<Rightarrow> NetworkObject \<Rightarrow> Topology \<Rightarrow> ref option \<Rightarrow> ref prog" where
  "Topology_getNML_h call cls base self = (\<lambda>parent.
     bind_h (NetworkObject_getNML_h call cls base parent) (\<lambda>this.
     then_h (for_each_h (relation_h call ''hasNode'') (has_node_nodes self) this)
    (then_h (for_each_h (relation_h call ''hasInboundPort'') (Topology.has_inbound_port_ports self) this)
    (then_h (for_each_h (relation_h call ''hasOutboundPort'') (Topology.has_outbound_port_ports self) this)
    (then_h (for_each_h (relation_h call ''hasService'') (Topology.has_service_services self) this)
    (then_h (for_each_h (relation_h call ''hasTopology'') (has_topology_topologies self) this)
    (ret this)))))))"

definition Location_getNML_h :: "Location \<Rightarrow> ref option \<Rightarrow> ref prog" where
  "Location_getNML_h self = (\<lambda>parent.
     bind_h (new_element parent ''Location'' []) (\<lambda>this.
     then_h (attrib_if_set_h this ''id'' (Location.priv_identification self))
    (then_h (attrib_if_set_h this ''name'' (Location.priv_name self))
    (then_h (attrib_if_set_h this ''long'' (longitude self))
    (then_h (attrib_if_set_h this ''lat'' (latitude self))
    (then_h (attrib_if_set_h this ''alt'' (altitude self))
    (then_h (attrib_if_set_h this ''unlocode'' (unlocode self))
    (then_h (attrib_if_set_h this ''address'' (address self))
    (ret this)))))))))"

definition Lifetime_getNML_h :: "Lifetime \<Rightarrow> ref option \<Rightarrow> ref prog" where
  "Lifetime_getNML_h self = (\<lambda>parent.
     bind_h (new_element parent ''Lifetime'' []) (\<lambda>this.
     then_h (attrib_if_set_h this ''start'' (start self))
    (then_h (attrib_if_set_h this ''end'' (end_time self))
    (ret this))))"

definition Label_getNML_h :: "Label \<Rightarrow> ref option \<Rightarrow> ref prog" where
  "Label_getNML_h self = (\<lambda>parent.
     bind_h (new_element parent ''Label'' []) (\<lambda>this.
     then_h (attrib_if_set_h this ''labeltype'' (Label.labeltype self))
    (then_h (attrib_if_set_h this ''value'' (label_value self))
    (ret this))))"

fun obj_getNML_h :: "getNML_h_call \<Rightarrow> obj \<Rightarrow> ref option \<Rightarrow> ref prog" where
  "obj_getNML_h call (NetworkObj base (Node n)) = Node_getNML_h call ''Node'' base n"
| "obj_getNML_h call (NetworkObj base (Port p)) = Port_getNML_h call ''Port'' base p"
| "obj_getNML_h call (NetworkObj base (Link l)) = Link_getNML_h call ''Link'' base l"
| "obj_getNML_h call (NetworkObj base (SwitchingService x)) =
     SwitchingService_getNML_h call ''SwitchingService'' base x"
| "obj_getNML_h call (NetworkObj base (AdaptationService x)) =
     AdaptationService_getNML_h call ''AdaptationService'' base x"
| "obj_getNML_h call (NetworkObj base (DeadaptationService x)) =
     DeadaptationService_getNML_h call ''DeadaptationService'' base x"
| "obj_getNML_h call (NetworkObj base (Topology t)) = Topology_getNML_h call ''Topology'' base t"
| "obj_getNML_h call (NetworkObj base (PortGroup g)) =
     NetworkObject_getNML_h call ''PortGroup'' base"
| "obj_getNML_h call (NetworkObj base (LinkGroup g)) =
     NetworkObject_getNML_h call ''LinkGroup'' base"
| "obj_getNML_h call (NetworkObj base (BidirectionalPort g)) =
     NetworkObject_getNML_h call ''BidirectionalPort'' base"
| "obj_getNML_h call (NetworkObj base (BidirectionalLink g)) =
     NetworkObject_getNML_h call ''BidirectionalLink'' base"
| "obj_getNML_h call (Location l) = Location_getNML_h l"
| "obj_getNML_h call (Lifetime l) = Lifetime_getNML_h l"
| "obj_getNML_h call (Label l) = Label_getNML_h l"
| "obj_getNML_h call (LabelGroup g) = (\<lambda>parent h. (Inl AttributeError, h))"
| "obj_getNML_h call OrderedList = (\<lambda>parent h. (Inl AttributeError, h))"
| "obj_getNML_h call ListItem = (\<lambda>parent h. (Inl AttributeError, h))"

text \<open>
  \<open>getNML_h n r parent\<close> is \<^verbatim>\<open>r.getNML(parent)\<close> with recursion depth \<open>n\<close>. The attributes of
  the object are read from the heap on entry; an element has no method \<^verbatim>\<open>getNML\<close>.
\<close>

primrec getNML_h :: "nat \<Rightarrow> ref \<Rightarrow> ref option \<Rightarrow> ref prog" where
  "getNML_h 0 r = (\<lambda>parent h. (Inl RecursionError, h))"
| "getNML_h (Suc n) r = (\<lambda>parent h.
     if r < length h
     then (case h ! r of
             Obj ob \<Rightarrow> obj_getNML_h (getNML_h n) ob parent h
           | Elem e \<Rightarrow> (Inl AttributeError, h))
     else (Inl AttributeError, h))"

text \<open>
  \<open>layout b t\<close> are the cells that hold the tree \<open>t\<close> when its elements were created in
  document order from address \<open>b\<close> on: the root at \<open>b\<close>, then the cells of the first child,
  and so on. \<open>store_of h\<close> is the graph of objects in a heap.
\<close>

fun nodes :: "element \<Rightarrow> nat" where
  "nodes (Element tg at cs) = Suc (sum_list (map nodes cs))"

fun kid_addrs :: "nat \<Rightarrow> element list \<Rightarrow> nat list" where
  "kid_addrs a [] = []"
| "kid_addrs a (c # cs) = a # kid_addrs (a + nodes c) cs"

fun layout :: "nat \<Rightarrow> element \<Rightarrow> cell list"
  and layouts :: "nat \<Rightarrow> element list \<Rightarrow> cell list" where
  "layout b (Element tg at cs) =
     Elem \<lparr>e_tag = tg, e_attrib = at, e_children = kid_addrs (Suc b) cs\<rparr> # layouts (Suc b) cs"
| "layouts a [] = []"
| "layouts a (c # cs) = layout a c @ layouts (a + nodes c) cs"

definition store_of :: "heap \<Rightarrow> store" where
  "store_of h r =
     (if r < length h then (case h ! r of Obj ob \<Rightarrow> Some ob | Elem e \<Rightarrow> None) else None)"

text \<open>A sample heap: a BidirectionalLink with one alias, another BidirectionalLink.\<close>

definition two_links :: heap where
  "two_links =
     [Obj (NetworkObj (NetworkObject_blank\<lparr>is_alias_network_objects := [1]\<rparr>)
             (BidirectionalLink BidirectionalLink_attrs)),
      Obj BidirectionalLink_blank]"

section \<open>Notions used in the proofs\<close>

text \<open>
  \<open>collect call xs\<close> calls \<^verbatim>\<open>getNML\<close> on the objects \<open>xs\<close> in order and stops at the first
  exception. \<open>visits F xs\<close> says that the piece of a serializer \<open>F\<close> makes exactly these calls
  and then assembles its element from their results. \<open>related ob\<close> lists the objects whose
  \<^verbatim>\<open>getNML\<close> the serializer of \<open>ob\<close> calls, in the order of the calls, and \<open>edges s\<close> is the
  graph they form. \<open>extends G\<close> says that \<open>G\<close> keeps the children its argument already has.
\<close>

fun collect :: "getNML_call \<Rightarrow> ref list \<Rightarrow> error + element list" where
  "collect call [] = Inr []"
| "collect call (x # xs) =
     and_then (call x) (\<lambda>c. and_then (collect call xs) (\<lambda>cs. Inr (c # cs)))"

definition option_refs :: "ref option \<Rightarrow> ref list" where
  "option_refs x = (case x of None \<Rightarrow> [] | Some r \<Rightarrow> [r])"

definition visits :: "(getNML_call \<Rightarrow> element \<Rightarrow> error + element) \<Rightarrow> ref list \<Rightarrow> bool" where
  "visits F xs \<longleftrightarrow>
     (\<exists>asm. \<forall>call this. F call this = and_then (collect call xs) (\<lambda>cs. Inr (asm this cs)))"

definition NetworkObject_related :: "NetworkObject \<Rightarrow> ref list" where
  "NetworkObject_related base =
     is_alias_network_objects base @ exists_during_lifetimes base
     @ option_refs (located_at_location base)"

fun related :: "obj \<Rightarrow> ref list" where
  "related (NetworkObj base (Node n)) =
     NetworkObject_related base @ Node.has_inbound_port_ports n @ Node.has_outbound_port_ports n
     @ Node.has_service_services n @ implemented_by_nodes n"
| "related (NetworkObj base (Port p)) =
     NetworkObject_related base @ option_refs (Port.has_label_label p)
     @ Port.has_service_services p @ is_sink_links p @ is_source_links p"
| "related (NetworkObj base (Link l)) = NetworkObject_related base"
| "related (NetworkObj base (SwitchingService x)) =
     NetworkObject_related base @ SwitchingService.has_inbound_port_ports x
     @ SwitchingService.has_outbound_port_ports x @ provides_link_links x"
| "related (NetworkObj base (AdaptationService x)) =
     NetworkObject_related base @ AdaptationService.can_provide_port_ports x
     @ AdaptationService.provides_port_ports x"
| "related (NetworkObj base (DeadaptationService x)) =
     NetworkObject_related base @ DeadaptationService.can_provide_port_ports x
     @ DeadaptationService.provides_port_ports x"
| "related (NetworkObj base (Topology t)) =
     NetworkObject_related base @ has_node_nodes t @ Topology.has_inbound_port_ports t
     @ Topology.has_outbound_port_ports t @ Topology.has_service_services t
     @ has_topology_topologies t"
| "related (NetworkObj base (PortGroup g)) = NetworkObject_related base"
| "related (NetworkObj base (LinkGroup g)) = NetworkObject_related base"
| "related (NetworkObj base (BidirectionalPort g)) = NetworkObject_related base"
| "related (NetworkObj base (BidirectionalLink g)) = NetworkObject_related base"
| "related (Location l) = []"
| "related (Lifetime l) = []"
| "related (Label l) = []"
| "related (LabelGroup g) = []"
| "related OrderedList = []"
| "related ListItem = []"

fun defines_getNML :: "obj \<Rightarrow> bool" where
  "defines_getNML (LabelGroup g) = False"
| "defines_getNML OrderedList = False"
| "defines_getNML ListItem = False"
| "defines_getNML ob = True"

definition edges :: "store \<Rightarrow> (ref \<times> ref) set" where
  "edges s = {(r, x). \<exists>ob. s r = Some ob \<and> x \<in> set (related ob)}"

definition extends :: "(element \<Rightarrow> error + element) \<Rightarrow> bool" where
  "extends G \<longleftrightarrow> (\<forall>this t. G this = Inr t \<longrightarrow> set (children this) \<subseteq> set (children t))"

text \<open>
  For the heap: \<open>valid_parent\<close> says that the parent argument, if there is one, is an
  element of the heap, and \<open>add_kid\<close> is the heap after that element got one more child.
  \<open>opened b t\<close> are the cells of \<open>t\<close> with one more child of the root announced. \<open>sim\<close>,
  \<open>simK\<close> and \<open>refines\<close> relate a piece of a serializer that computes an element to the
  statements that build it on the heap: where the first returns \<open>t\<close>, the second leaves the
  cells of \<open>t\<close> and touches nothing else; where the first raises, so does the second,
  and the objects are as before.
\<close>

definition valid_parent :: "heap \<Rightarrow> ref option \<Rightarrow> bool" where
  "valid_parent h parent =
     (case parent of None \<Rightarrow> True | Some p \<Rightarrow> p < length h \<and> (\<exists>e. h ! p = Elem e))"

definition add_kid :: "ref option \<Rightarrow> ref \<Rightarrow> heap \<Rightarrow> heap" where
  "add_kid parent a h =
     (case parent of
        None \<Rightarrow> h
      | Some p \<Rightarrow> (case h ! p of
                    Elem e \<Rightarrow> h[p := Elem (e\<lparr>e_children := e_children e @ [a]\<rparr>)]
                  | Obj ob \<Rightarrow> h))"

definition opened :: "nat \<Rightarrow> element \<Rightarrow> cell list" where
  "opened b t =
     Elem \<lparr>e_tag = tag t, e_attrib = attrib t,
           e_children = kid_addrs (Suc b) (children t) @ [b + nodes t]\<rparr>
     # layouts (Suc b) (children t)"

definition sim :: "store \<Rightarrow> (element \<Rightarrow> error + element) \<Rightarrow> (ref \<Rightarrow> unit prog) \<Rightarrow> bool" where
  "sim s F Fh \<longleftrightarrow>
     (\<forall>pre t. store_of pre = s \<longrightarrow>
        (case F t of
           Inr t' \<Rightarrow> Fh (length pre) (pre @ layout (length pre) t)
                      = (Inr (), pre @ layout (length pre) t')
         | Inl e \<Rightarrow> (\<exists>h'. Fh (length pre) (pre @ layout (length pre) t) = (Inl e, h')
                         \<and> store_of h' = s)))"

definition simK :: "store \<Rightarrow> (element \<Rightarrow> error + element) \<Rightarrow> (ref \<Rightarrow> ref prog) \<Rightarrow> bool" where
  "simK s K Kh \<longleftrightarrow>
     (\<forall>pre t. store_of pre = s \<longrightarrow>
        (case K t of
           Inr t' \<Rightarrow> Kh (length pre) (pre @ layout (length pre) t)
                      = (Inr (length pre), pre @ layout (length pre) t')
         | Inl e \<Rightarrow> (\<exists>h'. Kh (length pre) (pre @ layout (length pre) t) = (Inl e, h')
                         \<and> store_of h' = s)))"

definition refines :: "store \<Rightarrow> error + element \<Rightarrow> (ref option \<Rightarrow> ref prog) \<Rightarrow> bool" where
  "refines s P Ph \<longleftrightarrow>
     (\<forall>h parent. store_of h = s \<and> valid_parent h parent \<longrightarrow>
        (case P of
           Inr t \<Rightarrow> Ph parent h
                     = (Inr (length h), add_kid parent (length h) h @ layout (length h) t)
         | Inl e \<Rightarrow> (\<exists>h'. Ph parent h = (Inl e, h') \<and> store_of h' = s)))"

section \<open>Properties of the serializer\<close>

lemmas getNML_defs =
  NetworkObject_getNML_def Node_getNML_def Port_getNML_def Link_getNML_def
  Topology_getNML_def SwitchingService_getNML_def AdaptationService_getNML_def
  DeadaptationService_getNML_def Location_getNML_def Lifetime_getNML_def Label_getNML_def
  relation_def nested_def if_set_def attrib_if_set_def attrib_if_true_def
  set_attrib_def append_child_def nsmap_keyword_def

lemmas init_defs =
  NetworkObject_blank_def NetworkObject_init_def Location_blank_def Label_blank_def
  Node_attrs_def Node_new_def Node_blank_def Port_attrs_def Port_new_def Port_blank_def
  Link_attrs_def Link_new_def Link_blank_def SwitchingService_attrs_def
  SwitchingService_new_def SwitchingService_blank_def AdaptationService_attrs_def
  AdaptationService_new_def AdaptationService_blank_def DeadaptationService_attrs_def
  DeadaptationService_new_def DeadaptationService_blank_def Topology_attrs_def
  Topology_new_def Topology_blank_def PortGroup_attrs_def PortGroup_new_def
  PortGroup_blank_def LinkGroup_attrs_def LinkGroup_new_def LinkGroup_blank_def
  BidirectionalPort_attrs_def BidirectionalPort_new_def BidirectionalPort_blank_def
  BidirectionalLink_attrs_def BidirectionalLink_new_def BidirectionalLink_blank_def

subsection \<open>Each serializer calls its related objects in order\<close>

lemma and_then_simps [simp]:
  "and_then (Inl e) f = Inl e"
  "and_then (Inr x) f = f x"
  by (simp_all add: and_then_def)

lemma and_then_Inr_iff: "and_then m f = Inr y \<longleftrightarrow> (\<exists>x. m = Inr x \<and> f x = Inr y)"
  by (cases m) simp_all

lemma let_as_step: "Let x f = and_then (Inr x) f"
  by simp

lemma visitsI:
  "(\<And>call this. F call this = and_then (collect call xs) (\<lambda>cs. Inr (asm this cs))) \<Longrightarrow> visits F xs"
  unfolding visits_def by blast

lemma collect_append:
  "collect call (xs @ ys) =
     and_then (collect call xs) (\<lambda>cs. and_then (collect call ys) (\<lambda>ds. Inr (cs @ ds)))"
proof (induction xs)
  case Nil
  show ?case by (cases "collect call ys") simp_all
next
  case (Cons x xs)
  show ?case
  proof (cases "call x")
    case (Inl e)
    then show ?thesis by simp
  next
    case (Inr c)
    then show ?thesis
      by (cases "collect call xs"; cases "collect call ys") (simp_all add: Cons)
  qed
qed

lemma collect_length: "collect call xs = Inr cs \<Longrightarrow> length cs = length xs"
  by (induction xs arbitrary: cs) (auto simp: and_then_Inr_iff)

lemma visits_pure: "visits (\<lambda>call this. Inr (g this)) []"
  by (rule visitsI [where asm = "\<lambda>this cs. g this"]) simp

lemma visits_seq:
  assumes "visits F xs" and "visits G ys"
  shows "visits (\<lambda>call this. and_then (F call this) (G call)) (xs @ ys)"
proof -
  from assms obtain f g where
    F: "\<And>call this. F call this = and_then (collect call xs) (\<lambda>cs. Inr (f this cs))" and
    G: "\<And>call this. G call this = and_then (collect call ys) (\<lambda>cs. Inr (g this cs))"
    unfolding visits_def by blast
  show ?thesis
  proof (rule visitsI [where asm = "\<lambda>this es. g (f this (take (length xs) es)) (drop (length xs) es)"])
    fix call this
    show "and_then (F call this) (G call) =
          and_then (collect call (xs @ ys))
            (\<lambda>es. Inr (g (f this (take (length xs) es)) (drop (length xs) es)))"
    proof (cases "collect call xs")
      case (Inl e)
      then show ?thesis by (simp add: F collect_append)
    next
      case (Inr cs)
      then show ?thesis
        using collect_length [OF Inr]
        by (cases "collect call ys") (simp_all add: F G collect_append)
    qed
  qed
qed

lemma for_each_relation_collect:
  "for_each (relation call ty) xs this =
     and_then (collect call xs)
       (\<lambda>cs. Inr (foldl (\<lambda>t c. append_child t (Element ''Relation'' [(''type'', Str ty)] [c])) this cs))"
proof (induction xs arbitrary: this)
  case Nil
  show ?case by simp
next
  case (Cons x xs)
  show ?case
  proof (cases "call x")
    case (Inl e)
    then show ?thesis by (simp add: relation_def)
  next
    case (Inr c)
    then have "relation call ty x this =
        Inr (append_child this (Element ''Relation'' [(''type'', Str ty)] [c]))"
      by (simp add: relation_def)
    then show ?thesis
      using Inr by (cases "collect call xs") (simp_all add: Cons)
  qed
qed

lemma for_each_nested_collect:
  "for_each (nested call) xs this =
     and_then (collect call xs) (\<lambda>cs. Inr (foldl append_child this cs))"
proof (induction xs arbitrary: this)
  case Nil
  show ?case by simp
next
  case (Cons x xs)
  show ?case
  proof (cases "call x")
    case (Inl e)
    then show ?thesis by (simp add: nested_def)
  next
    case (Inr c)
    then have "nested call x this = Inr (append_child this c)"
      by (simp add: nested_def)
    then show ?thesis
      using Inr by (cases "collect call xs") (simp_all add: Cons)
  qed
qed

lemma visits_for_each_relation: "visits (\<lambda>call. for_each (relation call ty) xs) xs"
  by (rule visitsI) (rule for_each_relation_collect)

lemma visits_for_each_nested: "visits (\<lambda>call. for_each (nested call) xs) xs"
  by (rule visitsI) (rule for_each_nested_collect)

lemma visits_if_set_relation: "visits (\<lambda>call. if_set (relation call ty) x) (option_refs x)"
proof (cases x)
  case None
  show ?thesis
    by (rule visitsI [where asm = "\<lambda>this cs. this"]) (simp add: None if_set_def option_refs_def)
next
  case (Some r)
  have "visits (\<lambda>call. for_each (relation call ty) [r]) [r]"
    by (rule visits_for_each_relation)
  moreover have "(\<lambda>call. for_each (relation call ty) [r]) = (\<lambda>call. if_set (relation call ty) x)"
    by (intro ext) (simp add: Some if_set_def and_then_def split: sum.splits)
  ultimately show ?thesis by (simp add: Some option_refs_def)
qed

lemma visits_eq: "visits F xs \<Longrightarrow> xs = ys \<Longrightarrow> visits F ys"
  by simp

lemmas visits_steps =
  visits_seq visits_pure visits_for_each_relation visits_for_each_nested visits_if_set_relation

lemma visits_NetworkObject_getNML:
  "visits (\<lambda>call this. NetworkObject_getNML call cls base) (NetworkObject_related base)"
  unfolding NetworkObject_getNML_def let_as_step
  by (rule visits_eq, (rule visits_steps)+, simp add: NetworkObject_related_def)

lemmas visits_getNML_steps = visits_steps visits_NetworkObject_getNML

lemma variant_getNML_visits:
  "visits (\<lambda>call this. obj_getNML call (NetworkObj base v)) (related (NetworkObj base v))"
proof (cases v)
  case (Node n)
  show ?thesis unfolding Node obj_getNML.simps Node_getNML_def let_as_step
    by (rule visits_eq, (rule visits_getNML_steps)+, simp)
next
  case (Port p)
  show ?thesis unfolding Port obj_getNML.simps Port_getNML_def let_as_step
    by (rule visits_eq, (rule visits_getNML_steps)+, simp)
next
  case (Link l)
  show ?thesis unfolding Link obj_getNML.simps Link_getNML_def let_as_step
    by (rule visits_eq, (rule visits_getNML_steps)+, simp)
next
  case (SwitchingService x)
  show ?thesis unfolding SwitchingService obj_getNML.simps SwitchingService_getNML_def let_as_step
    by (rule visits_eq, (rule visits_getNML_steps)+, simp)
next
  case (AdaptationService x)
  show ?thesis unfolding AdaptationService obj_getNML.simps AdaptationService_getNML_def let_as_step
    by (rule visits_eq, (rule visits_getNML_steps)+, simp)
next
  case (DeadaptationService x)
  show ?thesis
    unfolding DeadaptationService obj_getNML.simps DeadaptationService_getNML_def let_as_step
    by (rule visits_eq, (rule visits_getNML_steps)+, simp)
next
  case (Topology x)
  show ?thesis unfolding Topology obj_getNML.simps Topology_getNML_def let_as_step
    by (rule visits_eq, (rule visits_getNML_steps)+, simp)
next
  case (PortGroup g)
  show ?thesis unfolding PortGroup obj_getNML.simps related.simps
    by (rule visits_NetworkObject_getNML)
next
  case (LinkGroup g)
  show ?thesis unfolding LinkGroup obj_getNML.simps related.simps
    by (rule visits_NetworkObject_getNML)
next
  case (BidirectionalPort g)
  show ?thesis unfolding BidirectionalPort obj_getNML.simps related.simps
    by (rule visits_NetworkObject_getNML)
next
  case (BidirectionalLink g)
  show ?thesis unfolding BidirectionalLink obj_getNML.simps related.simps
    by (rule visits_NetworkObject_getNML)
qed

lemma obj_getNML_visits:
  assumes "defines_getNML ob"
  shows "visits (\<lambda>call this. obj_getNML call ob) (related ob)"
proof (cases ob)
  case (NetworkObj base v)
  show ?thesis unfolding NetworkObj by (rule variant_getNML_visits)
next
  case (Location l)
  show ?thesis unfolding Location obj_getNML.simps related.simps by (rule visits_pure)
next
  case (Lifetime l)
  show ?thesis unfolding Lifetime obj_getNML.simps related.simps by (rule visits_pure)
next
  case (Label l)
  show ?thesis unfolding Label obj_getNML.simps related.simps by (rule visits_pure)
qed (use assms in simp_all)

lemma obj_getNML_no_method: "\<not> defines_getNML ob \<Longrightarrow> obj_getNML call ob = Inl AttributeError"
  by (cases ob) simp_all

subsection \<open>What the outcome of a serializer depends on\<close>

lemma collect_cong:
  "(\<And>x. x \<in> set xs \<Longrightarrow> call x = call' x) \<Longrightarrow> collect call xs = collect call' xs"
  by (induction xs) simp_all

lemma collect_stable:
  assumes "collect call xs \<noteq> Inl RecursionError"
    and "\<And>x. x \<in> set xs \<Longrightarrow> call x \<noteq> Inl RecursionError \<Longrightarrow> call' x = call x"
  shows "collect call' xs = collect call xs"
  using assms
proof (induction xs)
  case Nil
  show ?case by simp
next
  case (Cons x xs)
  show ?case
  proof (cases "call x")
    case (Inl e)
    with Cons.prems(1) have "e \<noteq> RecursionError" by auto
    with Inl Cons.prems(2) [of x] show ?thesis by simp
  next
    case (Inr c)
    with Cons.prems(2) [of x] have x': "call' x = Inr c" by simp
    from Inr Cons.prems(1) have "collect call xs \<noteq> Inl RecursionError"
      by (cases "collect call xs") auto
    then have "collect call' xs = collect call xs"
      using Cons.prems(2) by (intro Cons.IH) auto
    with Inr x' show ?thesis by simp
  qed
qed

lemma collect_Inr_iff:
  "(\<exists>cs. collect call xs = Inr cs) \<longleftrightarrow> (\<forall>x \<in> set xs. \<exists>c. call x = Inr c)"
  by (induction xs) (auto simp: and_then_Inr_iff)

lemma obj_getNML_collect:
  assumes "defines_getNML ob"
  shows "\<exists>asm. \<forall>call. obj_getNML call ob =
           and_then (collect call (related ob)) (\<lambda>cs. Inr (asm cs))"
proof -
  from obj_getNML_visits [OF assms] obtain asm where
    "\<And>call this. obj_getNML call ob =
       and_then (collect call (related ob)) (\<lambda>cs. Inr (asm this cs))"
    unfolding visits_def by blast
  then have "\<forall>call. obj_getNML call ob =
      and_then (collect call (related ob)) (\<lambda>cs. Inr (asm undefined cs))"
    by blast
  then show ?thesis by (rule exI [where x = "asm undefined"])
qed

lemma obj_getNML_cong:
  assumes "\<And>x. x \<in> set (related ob) \<Longrightarrow> call x = call' x"
  shows "obj_getNML call ob = obj_getNML call' ob"
proof (cases "defines_getNML ob")
  case True
  from obj_getNML_collect [OF True] obtain asm where
    "\<And>call. obj_getNML call ob = and_then (collect call (related ob)) (\<lambda>cs. Inr (asm cs))"
    by blast
  with collect_cong [of "related ob" call call', OF assms] show ?thesis by simp
next
  case False
  then show ?thesis by (simp add: obj_getNML_no_method)
qed

lemma obj_getNML_stable:
  assumes "obj_getNML call ob \<noteq> Inl RecursionError"
    and "\<And>x. call x \<noteq> Inl RecursionError \<Longrightarrow> call' x = call x"
  shows "obj_getNML call' ob = obj_getNML call ob"
proof (cases "defines_getNML ob")
  case True
  from obj_getNML_collect [OF True] obtain asm where
    nf: "\<And>call. obj_getNML call ob = and_then (collect call (related ob)) (\<lambda>cs. Inr (asm cs))"
    by blast
  from assms(1) have "collect call (related ob) \<noteq> Inl RecursionError"
    by (auto simp: nf)
  then have "collect call' (related ob) = collect call (related ob)"
    using assms(2) by (rule collect_stable)
  then show ?thesis by (simp add: nf)
next
  case False
  then show ?thesis by (simp add: obj_getNML_no_method)
qed

lemma obj_getNML_Inr_iff:
  assumes "defines_getNML ob"
  shows "(\<exists>e. obj_getNML call ob = Inr e) \<longleftrightarrow> (\<forall>x \<in> set (related ob). \<exists>c. call x = Inr c)"
proof -
  from obj_getNML_collect [OF assms] obtain asm where
    nf: "\<And>call. obj_getNML call ob = and_then (collect call (related ob)) (\<lambda>cs. Inr (asm cs))"
    by blast
  have "(\<exists>e. obj_getNML call ob = Inr e) \<longleftrightarrow> (\<exists>cs. collect call (related ob) = Inr cs)"
    by (auto simp: nf and_then_Inr_iff)
  then show ?thesis by (simp add: collect_Inr_iff)
qed

lemma obj_getNML_Inr_defines: "obj_getNML call ob = Inr e \<Longrightarrow> defines_getNML ob"
  by (cases ob) simp_all

subsection \<open>Recursion depth\<close>

lemma getNML_Suc_stable:
  "getNML n s r \<noteq> Inl RecursionError \<Longrightarrow> getNML (Suc n) s r = getNML n s r"
proof (induction n arbitrary: r)
  case 0
  then show ?case by simp
next
  case (Suc n)
  show ?case
  proof (cases "s r")
    case None
    then show ?thesis by simp
  next
    case (Some ob)
    with Suc.prems have "obj_getNML (getNML n s) ob \<noteq> Inl RecursionError" by simp
    then have "obj_getNML (getNML (Suc n) s) ob = obj_getNML (getNML n s) ob"
      using Suc.IH by (rule obj_getNML_stable)
    with Some show ?thesis by simp
  qed
qed

lemma getNML_mono:
  "n \<le> m \<Longrightarrow> getNML n s r \<noteq> Inl RecursionError \<Longrightarrow> getNML m s r = getNML n s r"
proof (induction m)
  case 0
  then show ?case by simp
next
  case (Suc m)
  show ?case
  proof (cases "n = Suc m")
    case True
    then show ?thesis by simp
  next
    case False
    with Suc.prems have "n \<le> m" by simp
    with Suc have eq: "getNML m s r = getNML n s r" by simp
    with Suc.prems(2) have "getNML (Suc m) s r = getNML m s r"
      by (intro getNML_Suc_stable) simp
    with eq show ?thesis by simp
  qed
qed

subsection \<open>Frames and cycles in the relation graph\<close>

lemma getNML_frame:
  "(r, a) \<notin> (edges s)\<^sup>* \<Longrightarrow> getNML n (s(a := y)) r = getNML n s r"
proof (induction n arbitrary: r)
  case 0
  show ?case by simp
next
  case (Suc n)
  from Suc.prems have ne: "r \<noteq> a" by auto
  show ?case
  proof (cases "s r")
    case None
    with ne show ?thesis by simp
  next
    case (Some ob)
    have "getNML (Suc n) (s(a := y)) r = obj_getNML (getNML n (s(a := y))) ob"
      using Some ne by simp
    also have "\<dots> = obj_getNML (getNML n s) ob"
    proof (rule obj_getNML_cong)
      fix x assume "x \<in> set (related ob)"
      with Some have "(r, x) \<in> edges s" by (auto simp: edges_def)
      with Suc.prems have "(x, a) \<notin> (edges s)\<^sup>*"
        by (meson converse_rtrancl_into_rtrancl)
      then show "getNML n (s(a := y)) x = getNML n s x" by (rule Suc.IH)
    qed
    also have "\<dots> = getNML (Suc n) s r"
      using Some by simp
    finally show ?thesis .
  qed
qed

lemma getNML_Inr_edge:
  assumes "getNML n s r = Inr e" and "(r, x) \<in> edges s"
  shows "\<exists>m e'. n = Suc m \<and> getNML m s x = Inr e'"
proof (cases n)
  case 0
  with assms(1) show ?thesis by simp
next
  case (Suc m)
  from assms(2) obtain ob where ob: "s r = Some ob" "x \<in> set (related ob)"
    by (auto simp: edges_def)
  with assms(1) Suc have ret: "obj_getNML (getNML m s) ob = Inr e" by simp
  then have "defines_getNML ob" by (rule obj_getNML_Inr_defines)
  from obj_getNML_Inr_iff [OF this, of "getNML m s"] ret ob(2)
  show ?thesis using Suc by blast
qed

lemma getNML_Inr_reachable:
  assumes "(r, x) \<in> (edges s)\<^sup>*" and "getNML n s r = Inr e"
  shows "\<exists>e'. getNML n s x = Inr e'"
  using assms
proof (induction rule: rtrancl_induct)
  case base
  then show ?case by blast
next
  case (step y z)
  then obtain e1 where "getNML n s y = Inr e1" by blast
  from getNML_Inr_edge [OF this step.hyps(2)] obtain m e' where
    m: "n = Suc m" "getNML m s z = Inr e'" by blast
  then have "getNML n s z = getNML m s z" by (intro getNML_mono) simp_all
  with m show ?case by simp
qed

lemma getNML_cycle:
  assumes "(a, a) \<in> (edges s)\<^sup>+"
  shows "getNML n s a \<noteq> Inr e"
proof (induction n arbitrary: e)
  case 0
  show ?case by simp
next
  case (Suc n)
  show ?case
  proof
    assume ret: "getNML (Suc n) s a = Inr e"
    from assms obtain y where y: "(a, y) \<in> (edges s)\<^sup>*" "(y, a) \<in> edges s"
      by (meson tranclD2)
    from getNML_Inr_reachable [OF y(1) ret] obtain e1 where "getNML (Suc n) s y = Inr e1" ..
    from getNML_Inr_edge [OF this y(2)] obtain e' where "getNML n s a = Inr e'" by auto
    with Suc show False by blast
  qed
qed

lemma getNML_Inr_related_frame:
  assumes ret: "getNML n s a = Inr e" and a: "s a = Some ob" and x: "x \<in> set (related ob)"
  shows "getNML m (s(a := y)) x = getNML m s x"
proof (rule getNML_frame)
  show "(x, a) \<notin> (edges s)\<^sup>*"
  proof
    assume "(x, a) \<in> (edges s)\<^sup>*"
    moreover from a x have "(a, x) \<in> edges s" by (auto simp: edges_def)
    ultimately have "(a, a) \<in> (edges s)\<^sup>+" by (rule rtrancl_into_trancl2 [rotated])
    from getNML_cycle [OF this] ret show False by blast
  qed
qed

subsection \<open>Children are only added\<close>

lemma extendsD: "extends G \<Longrightarrow> G this = Inr t \<Longrightarrow> set (children this) \<subseteq> set (children t)"
  unfolding extends_def by blast

lemma extends_seq: "extends F \<Longrightarrow> extends G \<Longrightarrow> extends (\<lambda>this. and_then (F this) G)"
  unfolding extends_def by (fastforce simp: and_then_Inr_iff)

lemma extends_Inr: "extends Inr"
  unfolding extends_def by simp

lemma extends_attrib_if_set: "extends (\<lambda>this. Inr (attrib_if_set this k x))"
  unfolding extends_def by (simp add: attrib_if_set_def set_attrib_def split: option.splits)

lemma extends_attrib_if_true: "extends (\<lambda>this. Inr (attrib_if_true this k b))"
  unfolding extends_def by (simp add: attrib_if_true_def set_attrib_def)

lemma extends_relation: "extends (relation call ty x)"
  unfolding extends_def by (auto simp: relation_def and_then_Inr_iff append_child_def)

lemma extends_nested: "extends (nested call x)"
  unfolding extends_def by (auto simp: nested_def and_then_Inr_iff append_child_def)

lemma extends_for_each:
  assumes "\<And>x. extends (body x)"
  shows "extends (for_each body xs)"
  unfolding extends_def
proof (intro allI impI)
  fix this t
  assume "for_each body xs this = Inr t"
  then show "set (children this) \<subseteq> set (children t)"
  proof (induction xs arbitrary: this)
    case Nil
    then show ?case by simp
  next
    case (Cons x xs)
    then obtain t1 where t1: "body x this = Inr t1" "for_each body xs t1 = Inr t"
      by (auto simp: and_then_Inr_iff)
    from extendsD [OF assms t1(1)] Cons.IH [OF t1(2)] show ?case by blast
  qed
qed

lemma extends_if_set:
  assumes "\<And>r. extends (body r)"
  shows "extends (if_set body x)"
  using assms unfolding extends_def if_set_def by (cases x) auto

lemmas extends_steps =
  extends_seq extends_Inr extends_attrib_if_set extends_attrib_if_true
  extends_for_each extends_if_set extends_relation extends_nested

lemma and_then_extends:
  assumes "and_then m G = Inr e" and "extends G"
  shows "\<exists>e0. m = Inr e0 \<and> set (children e0) \<subseteq> set (children e)"
  using assms by (auto simp: and_then_Inr_iff dest: extendsD)

lemma variant_getNML_base:
  assumes "obj_getNML call (NetworkObj base v) = Inr e"
  shows "\<exists>e0. NetworkObject_getNML call (variant_name v) base = Inr e0
              \<and> set (children e0) \<subseteq> set (children e)"
proof (cases v)
  case (Node n)
  from assms [unfolded Node obj_getNML.simps Node_getNML_def let_as_step]
  show ?thesis unfolding Node variant_name.simps
    by (rule and_then_extends) (rule extends_steps)+
next
  case (Port p)
  from assms [unfolded Port obj_getNML.simps Port_getNML_def let_as_step]
  show ?thesis unfolding Port variant_name.simps
    by (rule and_then_extends) (rule extends_steps)+
next
  case (Link l)
  from assms [unfolded Link obj_getNML.simps Link_getNML_def let_as_step]
  show ?thesis unfolding Link variant_name.simps
    by (rule and_then_extends) (rule extends_steps)+
next
  case (SwitchingService x)
  from assms [unfolded SwitchingService obj_getNML.simps SwitchingService_getNML_def let_as_step]
  show ?thesis unfolding SwitchingService variant_name.simps
    by (rule and_then_extends) (rule extends_steps)+
next
  case (AdaptationService x)
  from assms [unfolded AdaptationService obj_getNML.simps AdaptationService_getNML_def let_as_step]
  show ?thesis unfolding AdaptationService variant_name.simps
    by (rule and_then_extends) (rule extends_steps)+
next
  case (DeadaptationService x)
  from assms [unfolded DeadaptationService obj_getNML.simps DeadaptationService_getNML_def
      let_as_step]
  show ?thesis unfolding DeadaptationService variant_name.simps
    by (rule and_then_extends) (rule extends_steps)+
next
  case (Topology x)
  from assms [unfolded Topology obj_getNML.simps Topology_getNML_def let_as_step]
  show ?thesis unfolding Topology variant_name.simps
    by (rule and_then_extends) (rule extends_steps)+
qed (use assms in simp_all)

lemma for_each_relation_member:
  assumes "for_each (relation call ty) xs this = Inr t" and "x \<in> set xs"
  shows "\<exists>c. call x = Inr c \<and> Element ''Relation'' [(''type'', Str ty)] [c] \<in> set (children t)"
  using assms
proof (induction xs arbitrary: this)
  case Nil
  then show ?case by simp
next
  case (Cons y ys)
  from Cons.prems(1) obtain t1 where
    t1: "relation call ty y this = Inr t1" "for_each (relation call ty) ys t1 = Inr t"
    by (auto simp: and_then_Inr_iff)
  show ?case
  proof (cases "x = y")
    case True
    from t1(1) obtain c where c: "call y = Inr c"
      "t1 = append_child this (Element ''Relation'' [(''type'', Str ty)] [c])"
      by (auto simp: relation_def and_then_Inr_iff)
    have "extends (for_each (relation call ty) ys)"
      by (rule extends_steps)+
    from extendsD [OF this t1(2)] c True show ?thesis
      by (auto simp: append_child_def)
  next
    case False
    with Cons.prems(2) have "x \<in> set ys" by simp
    from Cons.IH [OF t1(2) this] show ?thesis .
  qed
qed

lemma NetworkObject_getNML_alias:
  assumes "NetworkObject_getNML call cls base = Inr e"
    and "x \<in> set (is_alias_network_objects base)"
  shows "\<exists>c. call x = Inr c
            \<and> Element ''Relation'' [(''type'', Str ''isAlias'')] [c] \<in> set (children e)"
proof -
  from assms(1) obtain this t where
    t: "for_each (relation call ''isAlias'') (is_alias_network_objects base) this = Inr t" and
    rest: "and_then (for_each (relation call ''existsDuring'') (exists_during_lifetimes base) t)
             (if_set (relation call ''locatedAt'') (located_at_location base)) = Inr e"
    unfolding NetworkObject_getNML_def Let_def by (auto simp: and_then_Inr_iff)
  have "extends (\<lambda>t. and_then (for_each (relation call ''existsDuring'') (exists_during_lifetimes base) t)
             (if_set (relation call ''locatedAt'') (located_at_location base)))"
    by (rule extends_steps)+
  from extendsD [OF this rest] for_each_relation_member [OF t assms(2)]
  show ?thesis by blast
qed

lemma related_is_alias_append:
  "set (related (NetworkObj (base\<lparr>is_alias_network_objects := is_alias_network_objects base @ [b]\<rparr>) v))
     = insert b (set (related (NetworkObj base v)))"
  by (cases v) (auto simp: NetworkObject_related_def)

lemma getNML_is_alias_appended:
  assumes a: "s a = Some (NetworkObj base v)"
    and before: "getNML n s a = Inr ea"
    and after: "getNML n (s(a \<mapsto> NetworkObj (base\<lparr>is_alias_network_objects :=
                   is_alias_network_objects base @ [b]\<rparr>) v)) b = Inr eb"
  shows "\<exists>ea'. getNML (Suc n) (s(a \<mapsto> NetworkObj (base\<lparr>is_alias_network_objects :=
                   is_alias_network_objects base @ [b]\<rparr>) v)) a = Inr ea'
             \<and> Element ''Relation'' [(''type'', Str ''isAlias'')] [eb] \<in> set (children ea')"
proof -
  let ?base' = "base\<lparr>is_alias_network_objects := is_alias_network_objects base @ [b]\<rparr>"
  let ?s' = "s(a \<mapsto> NetworkObj ?base' v)"
  have "\<exists>c. getNML n ?s' x = Inr c" if x: "x \<in> set (related (NetworkObj ?base' v))" for x
  proof (cases "x \<in> set (related (NetworkObj base v))")
    case True
    with a have "(a, x) \<in> edges s" by (auto simp: edges_def)
    from getNML_Inr_edge [OF before this] obtain m e' where
      m: "n = Suc m" "getNML m s x = Inr e'" by blast
    then have "getNML n s x = getNML m s x" by (intro getNML_mono) simp_all
    moreover have "getNML n ?s' x = getNML n s x"
      using before a True by (rule getNML_Inr_related_frame)
    ultimately show ?thesis using m by simp
  next
    case False
    with x have "x = b" by (simp add: related_is_alias_append)
    with after show ?thesis by blast
  qed
  then obtain ea' where ea': "obj_getNML (getNML n ?s') (NetworkObj ?base' v) = Inr ea'"
    using obj_getNML_Inr_iff [of "NetworkObj ?base' v" "getNML n ?s'"] by auto
  from variant_getNML_base [OF ea'] obtain e0 where
    e0: "NetworkObject_getNML (getNML n ?s') (variant_name v) ?base' = Inr e0"
        "set (children e0) \<subseteq> set (children ea')" by blast
  from NetworkObject_getNML_alias [OF e0(1), of b] after
  have "Element ''Relation'' [(''type'', Str ''isAlias'')] [eb] \<in> set (children e0)" by auto
  with e0(2) ea' show ?thesis by auto
qed

subsection \<open>The statements build the tree that the serializer computes\<close>

lemmas getNML_h_defs =
  NetworkObject_getNML_h_def Node_getNML_h_def Port_getNML_h_def Link_getNML_h_def
  Topology_getNML_h_def SwitchingService_getNML_h_def AdaptationService_getNML_h_def
  DeadaptationService_getNML_h_def Location_getNML_h_def Lifetime_getNML_h_def
  Label_getNML_h_def relation_h_def nested_h_def if_set_h_def attrib_if_set_h_def
  attrib_if_true_h_def new_element_def etree_Element_def etree_SubElement_def
  attrib_setitem_def bind_h_def then_h_def nsmap_keyword_def

lemma length_layout:
  "length (layout b t) = nodes t"
  "length (layouts a cs) = sum_list (map nodes cs)"
  by (induction b t and a cs rule: layout_layouts.induct) simp_all

lemma layout_all_Elem:
  "c \<in> set (layout b t) \<Longrightarrow> \<exists>e. c = Elem e"
  "c \<in> set (layouts a cs) \<Longrightarrow> \<exists>e. c = Elem e"
  by (induction b t and a cs rule: layout_layouts.induct) auto

lemma layout_root:
  "layout b t = Elem \<lparr>e_tag = tag t, e_attrib = attrib t,
                       e_children = kid_addrs (Suc b) (children t)\<rparr>
                # layouts (Suc b) (children t)"
  by (cases t) simp

lemma nodes_children: "nodes t = Suc (sum_list (map nodes (children t)))"
  by (cases t) simp

lemma kid_addrs_snoc:
  "kid_addrs a (cs @ [c]) = kid_addrs a cs @ [a + sum_list (map nodes cs)]"
  by (induction cs arbitrary: a) (simp_all add: add.assoc)

lemma layouts_snoc:
  "layouts a (cs @ [c]) = layouts a cs @ layout (a + sum_list (map nodes cs)) c"
  by (induction cs arbitrary: a) (simp_all add: add.assoc)

lemma layout_append_child:
  "layout b (append_child t c) = opened b t @ layout (b + nodes t) c"
  by (simp add: append_child_def opened_def kid_addrs_snoc layouts_snoc nodes_children [of t])

lemma length_opened: "length (opened b t) = nodes t"
  by (simp add: opened_def length_layout nodes_children [of t])

lemma opened_all_Elem: "c \<in> set (opened b t) \<Longrightarrow> \<exists>e. c = Elem e"
  by (auto simp: opened_def dest: layout_all_Elem)

lemma store_of_append_Elems:
  assumes "\<And>c. c \<in> set xs \<Longrightarrow> \<exists>e. c = Elem e"
  shows "store_of (pre @ xs) = store_of pre"
proof (rule ext)
  fix r
  show "store_of (pre @ xs) r = store_of pre r"
  proof (cases "r < length pre")
    case True
    then show ?thesis by (simp add: store_of_def nth_append)
  next
    case False
    show ?thesis
    proof (cases "r < length (pre @ xs)")
      case True
      with False have "(pre @ xs) ! r \<in> set xs"
        by (simp add: nth_append)
      with assms obtain e where "(pre @ xs) ! r = Elem e" by blast
      with False show ?thesis by (simp add: store_of_def)
    next
      case False
      then show ?thesis by (simp add: store_of_def)
    qed
  qed
qed

lemma store_of_append_layout [simp]: "store_of (pre @ layout b t) = store_of pre"
  by (rule store_of_append_Elems) (rule layout_all_Elem)

lemma store_of_append_opened [simp]: "store_of (pre @ opened b t) = store_of pre"
  by (rule store_of_append_Elems) (rule opened_all_Elem)

lemma store_of_add_kid [simp]:
  "valid_parent h parent \<Longrightarrow> store_of (add_kid parent a h) = store_of h"
  by (cases parent)
     (auto simp: valid_parent_def add_kid_def store_of_def nth_list_update fun_eq_iff)

lemma length_add_kid [simp]: "length (add_kid parent a h) = length h"
  by (simp add: add_kid_def split: option.splits cell.splits)

lemma add_kid_root:
  "add_kid (Some (length pre)) a (pre @ layout (length pre) t) =
     pre @ Elem \<lparr>e_tag = tag t, e_attrib = attrib t,
                 e_children = kid_addrs (Suc (length pre)) (children t) @ [a]\<rparr>
         # layouts (Suc (length pre)) (children t)"
  by (simp add: add_kid_def layout_root [of _ t])

lemma add_kid_layout:
  "add_kid (Some (length pre)) (length pre + nodes t) (pre @ layout (length pre) t)
     @ layout (length pre + nodes t) c
   = pre @ layout (length pre) (append_child t c)"
  by (simp add: add_kid_root layout_append_child opened_def)

lemma attrib_setitem_root:
  "attrib_setitem (length pre) k v (pre @ layout (length pre) t)
     = (Inr (), pre @ layout (length pre) (set_attrib t k v))"
  by (simp add: attrib_setitem_def layout_root [of _ t] layout_root [of _ "set_attrib t k v"]
      set_attrib_def)

lemma etree_SubElement_root:
  "etree_SubElement (length pre) tg extra (pre @ layout (length pre) t)
     = (Inr (length pre + nodes t),
        pre @ layout (length pre) (append_child t (Element tg extra [])))"
  by (simp add: etree_SubElement_def layout_root [of _ t] layout_append_child opened_def
      length_layout nodes_children [of t])

lemma bind_h_simps [simp]:
  "p h = (Inl e, h') \<Longrightarrow> bind_h p f h = (Inl e, h')"
  "p h = (Inr x, h') \<Longrightarrow> bind_h p f h = f x h'"
  "p h = (Inl e, h') \<Longrightarrow> then_h p q h = (Inl e, h')"
  "p h = (Inr x, h') \<Longrightarrow> then_h p q h = q h'"
  by (simp_all add: bind_h_def then_h_def)

lemma ret_simp [simp]: "ret x h = (Inr x, h)"
  by (simp add: ret_def)

lemma simI:
  assumes "\<And>pre t t'. store_of pre = s \<Longrightarrow> F t = Inr t' \<Longrightarrow>
             Fh (length pre) (pre @ layout (length pre) t) = (Inr (), pre @ layout (length pre) t')"
    and "\<And>pre t e. store_of pre = s \<Longrightarrow> F t = Inl e \<Longrightarrow>
             \<exists>h'. Fh (length pre) (pre @ layout (length pre) t) = (Inl e, h') \<and> store_of h' = s"
  shows "sim s F Fh"
  unfolding sim_def using assms by (auto split: sum.splits)

lemma simD_Inr:
  "sim s F Fh \<Longrightarrow> store_of pre = s \<Longrightarrow> F t = Inr t' \<Longrightarrow>
     Fh (length pre) (pre @ layout (length pre) t) = (Inr (), pre @ layout (length pre) t')"
  unfolding sim_def by (auto split: sum.splits)

lemma simD_Inl:
  "sim s F Fh \<Longrightarrow> store_of pre = s \<Longrightarrow> F t = Inl e \<Longrightarrow>
     \<exists>h'. Fh (length pre) (pre @ layout (length pre) t) = (Inl e, h') \<and> store_of h' = s"
  unfolding sim_def by (auto split: sum.splits)

lemma simKI:
  assumes "\<And>pre t t'. store_of pre = s \<Longrightarrow> K t = Inr t' \<Longrightarrow>
             Kh (length pre) (pre @ layout (length pre) t)
               = (Inr (length pre), pre @ layout (length pre) t')"
    and "\<And>pre t e. store_of pre = s \<Longrightarrow> K t = Inl e \<Longrightarrow>
             \<exists>h'. Kh (length pre) (pre @ layout (length pre) t) = (Inl e, h') \<and> store_of h' = s"
  shows "simK s K Kh"
  unfolding simK_def using assms by (auto split: sum.splits)

lemma simKD_Inr:
  "simK s K Kh \<Longrightarrow> store_of pre = s \<Longrightarrow> K t = Inr t' \<Longrightarrow>
     Kh (length pre) (pre @ layout (length pre) t)
       = (Inr (length pre), pre @ layout (length pre) t')"
  unfolding simK_def by (auto split: sum.splits)

lemma simKD_Inl:
  "simK s K Kh \<Longrightarrow> store_of pre = s \<Longrightarrow> K t = Inl e \<Longrightarrow>
     \<exists>h'. Kh (length pre) (pre @ layout (length pre) t) = (Inl e, h') \<and> store_of h' = s"
  unfolding simK_def by (auto split: sum.splits)

lemma refinesD_Inr:
  "refines s P Ph \<Longrightarrow> store_of h = s \<Longrightarrow> valid_parent h parent \<Longrightarrow> P = Inr t \<Longrightarrow>
     Ph parent h = (Inr (length h), add_kid parent (length h) h @ layout (length h) t)"
  unfolding refines_def by (auto split: sum.splits)

lemma refinesD_Inl:
  "refines s P Ph \<Longrightarrow> store_of h = s \<Longrightarrow> valid_parent h parent \<Longrightarrow> P = Inl e \<Longrightarrow>
     \<exists>h'. Ph parent h = (Inl e, h') \<and> store_of h' = s"
  unfolding refines_def by (auto split: sum.splits)

lemma refinesI:
  assumes "\<And>h parent t. store_of h = s \<Longrightarrow> valid_parent h parent \<Longrightarrow> P = Inr t \<Longrightarrow>
     Ph parent h = (Inr (length h), add_kid parent (length h) h @ layout (length h) t)"
    and "\<And>h parent e. store_of h = s \<Longrightarrow> valid_parent h parent \<Longrightarrow> P = Inl e \<Longrightarrow>
     \<exists>h'. Ph parent h = (Inl e, h') \<and> store_of h' = s"
  shows "refines s P Ph"
  unfolding refines_def using assms by (auto split: sum.splits)

lemma simK_then:
  assumes "sim s F Fh" and "simK s G Gh"
  shows "simK s (\<lambda>t. and_then (F t) G) (\<lambda>this. then_h (Fh this) (Gh this))"
proof (rule simKI)
  fix pre t t'
  assume s: "store_of pre = s" and "and_then (F t) G = Inr t'"
  then obtain t1 where t1: "F t = Inr t1" "G t1 = Inr t'"
    by (auto simp: and_then_Inr_iff)
  from simD_Inr [OF assms(1) s t1(1)] simKD_Inr [OF assms(2) s t1(2)]
  show "then_h (Fh (length pre)) (Gh (length pre)) (pre @ layout (length pre) t)
          = (Inr (length pre), pre @ layout (length pre) t')"
    by simp
next
  fix pre t e
  assume s: "store_of pre = s" and e: "and_then (F t) G = Inl e"
  show "\<exists>h'. then_h (Fh (length pre)) (Gh (length pre)) (pre @ layout (length pre) t) = (Inl e, h')
             \<and> store_of h' = s"
  proof (cases "F t")
    case (Inl e1)
    with e have "e1 = e" by simp
    with simD_Inl [OF assms(1) s Inl] show ?thesis by auto
  next
    case (Inr t1)
    with e have "G t1 = Inl e" by simp
    from simD_Inr [OF assms(1) s Inr] simKD_Inl [OF assms(2) s this]
    show ?thesis by auto
  qed
qed

lemma simK_last:
  assumes "sim s F Fh"
  shows "simK s F (\<lambda>this. then_h (Fh this) (ret this))"
proof (rule simKI)
  fix pre t t'
  assume "store_of pre = s" "F t = Inr t'"
  from simD_Inr [OF assms this]
  show "then_h (Fh (length pre)) (ret (length pre)) (pre @ layout (length pre) t)
          = (Inr (length pre), pre @ layout (length pre) t')"
    by simp
next
  fix pre t e
  assume "store_of pre = s" "F t = Inl e"
  from simD_Inl [OF assms this]
  show "\<exists>h'. then_h (Fh (length pre)) (ret (length pre)) (pre @ layout (length pre) t) = (Inl e, h')
             \<and> store_of h' = s"
    by auto
qed

lemma simK_ret: "simK s Inr ret"
  by (rule simKI) simp_all

lemma sim_attrib_if_set: "sim s (\<lambda>t. Inr (attrib_if_set t k x)) (\<lambda>this. attrib_if_set_h this k x)"
  by (rule simI)
     (auto simp: attrib_if_set_def attrib_if_set_h_def attrib_setitem_root split: option.splits)

lemma sim_attrib_if_true: "sim s (\<lambda>t. Inr (attrib_if_true t k b)) (\<lambda>this. attrib_if_true_h this k b)"
  by (rule simI) (auto simp: attrib_if_true_def attrib_if_true_h_def attrib_setitem_root)

lemma sim_for_each:
  assumes "\<And>x. sim s (body x) (bodyh x)"
  shows "sim s (for_each body xs) (for_each_h bodyh xs)"
proof (induction xs)
  case Nil
  show ?case by (rule simI) simp_all
next
  case (Cons x xs)
  show ?case
  proof (rule simI)
    fix pre t t'
    assume s: "store_of pre = s" and "for_each body (x # xs) t = Inr t'"
    then obtain t1 where t1: "body x t = Inr t1" "for_each body xs t1 = Inr t'"
      by (auto simp: and_then_Inr_iff)
    from simD_Inr [OF assms s t1(1)] simD_Inr [OF Cons s t1(2)]
    show "for_each_h bodyh (x # xs) (length pre) (pre @ layout (length pre) t)
            = (Inr (), pre @ layout (length pre) t')"
      by simp
  next
    fix pre t e
    assume s: "store_of pre = s" and e: "for_each body (x # xs) t = Inl e"
    show "\<exists>h'. for_each_h bodyh (x # xs) (length pre) (pre @ layout (length pre) t) = (Inl e, h')
               \<and> store_of h' = s"
    proof (cases "body x t")
      case (Inl e1)
      with e have "e1 = e" by simp
      with simD_Inl [OF assms s Inl] show ?thesis by auto
    next
      case (Inr t1)
      with e have "for_each body xs t1 = Inl e" by simp
      from simD_Inr [OF assms s Inr] simD_Inl [OF Cons s this]
      show ?thesis by auto
    qed
  qed
qed

lemma sim_if_set:
  assumes "\<And>r. sim s (body r) (bodyh r)"
  shows "sim s (if_set body x) (if_set_h bodyh x)"
proof (cases x)
  case None
  show ?thesis by (rule simI) (simp_all add: None if_set_def if_set_h_def)
next
  case (Some r)
  have "if_set body x = body r" "if_set_h bodyh x = bodyh r"
    by (rule ext, simp add: Some if_set_def if_set_h_def)+
  with assms [of r] show ?thesis by simp
qed

lemma valid_parent_root: "valid_parent (pre @ layout (length pre) t) (Some (length pre))"
  by (simp add: valid_parent_def layout_root [of _ t])

lemma sim_nested:
  assumes "\<And>x. refines s (call x) (callh x)"
  shows "sim s (nested call x) (nested_h callh x)"
proof (rule simI)
  fix pre t t'
  assume s: "store_of pre = s" and "nested call x t = Inr t'"
  then obtain c where c: "call x = Inr c" "t' = append_child t c"
    by (auto simp: nested_def and_then_Inr_iff)
  let ?H = "pre @ layout (length pre) t"
  have sH: "store_of ?H = s" using s by simp
  have "callh x (Some (length pre)) ?H
          = (Inr (length ?H), add_kid (Some (length pre)) (length ?H) ?H @ layout (length ?H) c)"
    by (rule refinesD_Inr [OF assms sH valid_parent_root c(1)])
  then have "callh x (Some (length pre)) ?H
          = (Inr (length ?H), pre @ layout (length pre) (append_child t c))"
    by (simp add: length_layout add_kid_layout)
  then show "nested_h callh x (length pre) ?H = (Inr (), pre @ layout (length pre) t')"
    by (simp add: nested_h_def c(2))
next
  fix pre t e
  assume s: "store_of pre = s" and "nested call x t = Inl e"
  then have e: "call x = Inl e"
    by (cases "call x") (simp_all add: nested_def)
  let ?H = "pre @ layout (length pre) t"
  have sH: "store_of ?H = s" using s by simp
  have "\<exists>h'. callh x (Some (length pre)) ?H = (Inl e, h') \<and> store_of h' = s"
    by (rule refinesD_Inl [OF assms sH valid_parent_root e])
  then show "\<exists>h'. nested_h callh x (length pre) ?H = (Inl e, h') \<and> store_of h' = s"
    by (auto simp: nested_h_def)
qed

lemma relation_h_opened:
  "pre @ layout (length pre) (append_child t c)
     = (pre @ opened (length pre) t) @ layout (length (pre @ opened (length pre) t)) c"
  by (simp add: layout_append_child length_opened)

lemma sim_relation:
  assumes "\<And>x. refines s (call x) (callh x)"
  shows "sim s (relation call ty x) (relation_h callh ty x)"
proof -
  show ?thesis
  proof (rule simI)
    fix pre t t'
    assume s: "store_of pre = s" and "relation call ty x t = Inr t'"
    then obtain c where c: "call x = Inr c"
      "t' = append_child t (Element ''Relation'' [(''type'', Str ty)] [c])"
      by (auto simp: relation_def and_then_Inr_iff)
    let ?pre1 = "pre @ opened (length pre) t"
    let ?rel = "length ?pre1"
    let ?R0 = "Element ''Relation'' [] []"
    let ?R1 = "Element ''Relation'' [(''type'', Str ty)] []"
    let ?H2 = "?pre1 @ layout ?rel ?R1"
    have rel: "?rel = length pre + nodes t" by (simp add: length_opened)
    have s1: "store_of ?pre1 = s" using s by simp
    have step1: "etree_SubElement (length pre) ''Relation'' [] (pre @ layout (length pre) t)
        = (Inr ?rel, ?pre1 @ layout ?rel ?R0)"
      by (simp add: etree_SubElement_root layout_append_child length_opened)
    have step2: "attrib_setitem ?rel ''type'' (Str ty) (?pre1 @ layout ?rel ?R0)
        = (Inr (), ?H2)"
      using attrib_setitem_root [of ?pre1 "''type''" "Str ty" ?R0]
      by (simp add: set_attrib_def)
    have s2: "store_of ?H2 = s" by (simp only: store_of_append_layout s1)
    have "callh x (Some ?rel) ?H2
        = (Inr (length ?H2), add_kid (Some ?rel) (length ?H2) ?H2 @ layout (length ?H2) c)"
      by (rule refinesD_Inr [OF assms s2 valid_parent_root c(1)])
    moreover have "length ?H2 = ?rel + nodes ?R1" by (simp add: length_layout)
    ultimately have "callh x (Some ?rel) ?H2
        = (Inr (length ?H2), ?pre1 @ layout ?rel (append_child ?R1 c))"
      using add_kid_layout [of ?pre1 ?R1 c] by simp
    then have step3: "callh x (Some ?rel) ?H2
        = (Inr (length ?H2), pre @ layout (length pre) t')"
      using relation_h_opened [of pre t "append_child ?R1 c"] by (simp add: c(2) append_child_def)
    show "relation_h callh ty x (length pre) (pre @ layout (length pre) t)
            = (Inr (), pre @ layout (length pre) t')"
      unfolding relation_h_def using step1 step2 step3 by simp
  next
    fix pre t e
    assume s: "store_of pre = s" and "relation call ty x t = Inl e"
    then have e: "call x = Inl e"
      by (cases "call x") (simp_all add: relation_def)
    let ?pre1 = "pre @ opened (length pre) t"
    let ?rel = "length ?pre1"
    let ?R0 = "Element ''Relation'' [] []"
    let ?R1 = "Element ''Relation'' [(''type'', Str ty)] []"
    let ?H2 = "?pre1 @ layout ?rel ?R1"
    have rel: "?rel = length pre + nodes t" by (simp add: length_opened)
    have s1: "store_of ?pre1 = s" using s by simp
    have step1: "etree_SubElement (length pre) ''Relation'' [] (pre @ layout (length pre) t)
        = (Inr ?rel, ?pre1 @ layout ?rel ?R0)"
      by (simp add: etree_SubElement_root layout_append_child length_opened)
    have step2: "attrib_setitem ?rel ''type'' (Str ty) (?pre1 @ layout ?rel ?R0)
        = (Inr (), ?H2)"
      using attrib_setitem_root [of ?pre1 "''type''" "Str ty" ?R0]
      by (simp add: set_attrib_def)
    have s2: "store_of ?H2 = s" by (simp only: store_of_append_layout s1)
    have "\<exists>h'. callh x (Some ?rel) ?H2 = (Inl e, h') \<and> store_of h' = s"
      by (rule refinesD_Inl [OF assms s2 valid_parent_root e])
    then obtain h' where "callh x (Some ?rel) ?H2 = (Inl e, h')" "store_of h' = s" by blast
    then show "\<exists>h'. relation_h callh ty x (length pre) (pre @ layout (length pre) t) = (Inl e, h')
                 \<and> store_of h' = s"
      unfolding relation_h_def using step1 step2 by simp
  qed
qed

lemma new_element_result:
  assumes "valid_parent h parent"
  shows "new_element parent tg extra h
           = (Inr (length h),
              add_kid parent (length h) h @ layout (length h) (Element tg extra []))"
  using assms
  by (cases parent)
     (auto simp: new_element_def etree_Element_def etree_SubElement_def valid_parent_def
        add_kid_def)

lemma refines_new:
  assumes "simK s K Kh"
  shows "refines s (and_then (Inr (Element tg extra [])) K)
           (\<lambda>parent. bind_h (new_element parent tg extra) Kh)"
proof (rule refinesI)
  fix h parent t
  assume s: "store_of h = s" and v: "valid_parent h parent"
    and "and_then (Inr (Element tg extra [])) K = Inr t"
  then have K: "K (Element tg extra []) = Inr t" by simp
  let ?pre = "add_kid parent (length h) h"
  have "store_of ?pre = s" "length ?pre = length h" using s v by simp_all
  with simKD_Inr [OF assms _ K, of ?pre] new_element_result [OF v]
  show "bind_h (new_element parent tg extra) Kh h
          = (Inr (length h), add_kid parent (length h) h @ layout (length h) t)"
    by simp
next
  fix h parent e
  assume s: "store_of h = s" and v: "valid_parent h parent"
    and "and_then (Inr (Element tg extra [])) K = Inl e"
  then have K: "K (Element tg extra []) = Inl e" by simp
  let ?pre = "add_kid parent (length h) h"
  have "store_of ?pre = s" "length ?pre = length h" using s v by simp_all
  with simKD_Inl [OF assms _ K, of ?pre] new_element_result [OF v]
  show "\<exists>h'. bind_h (new_element parent tg extra) Kh h = (Inl e, h') \<and> store_of h' = s"
    by auto
qed

lemma refines_then:
  assumes "refines s P Ph" and "simK s K Kh"
  shows "refines s (and_then P K) (\<lambda>parent. bind_h (Ph parent) Kh)"
proof (rule refinesI)
  fix h parent t
  assume s: "store_of h = s" and v: "valid_parent h parent" and "and_then P K = Inr t"
  then obtain t1 where t1: "P = Inr t1" "K t1 = Inr t"
    by (auto simp: and_then_Inr_iff)
  let ?pre = "add_kid parent (length h) h"
  have "store_of ?pre = s" "length ?pre = length h" using s v by simp_all
  with simKD_Inr [OF assms(2) _ t1(2), of ?pre] refinesD_Inr [OF assms(1) s v t1(1)]
  show "bind_h (Ph parent) Kh h
          = (Inr (length h), add_kid parent (length h) h @ layout (length h) t)"
    by simp
next
  fix h parent e
  assume s: "store_of h = s" and v: "valid_parent h parent" and e: "and_then P K = Inl e"
  show "\<exists>h'. bind_h (Ph parent) Kh h = (Inl e, h') \<and> store_of h' = s"
  proof (cases P)
    case (Inl e1)
    with e have "e1 = e" by simp
    with refinesD_Inl [OF assms(1) s v Inl] show ?thesis by auto
  next
    case (Inr t1)
    with e have K: "K t1 = Inl e" by simp
    let ?pre = "add_kid parent (length h) h"
    have "store_of ?pre = s" "length ?pre = length h" using s v by simp_all
    with simKD_Inl [OF assms(2) _ K, of ?pre] refinesD_Inr [OF assms(1) s v Inr]
    show ?thesis by auto
  qed
qed

lemmas sim_steps =
  simK_then simK_last simK_ret sim_attrib_if_set sim_attrib_if_true sim_for_each sim_if_set

lemma refines_NetworkObject_getNML:
  assumes call: "\<And>x. refines s (call x) (callh x)"
  shows "refines s (NetworkObject_getNML call cls base) (NetworkObject_getNML_h callh cls base)"
  unfolding NetworkObject_getNML_def NetworkObject_getNML_h_def let_as_step
  by (rule refines_new) (rule sim_steps sim_relation [OF call] sim_nested [OF call])+

lemma refines_variant_getNML:
  assumes call: "\<And>x. refines s (call x) (callh x)"
  shows "refines s (obj_getNML call (NetworkObj base v)) (obj_getNML_h callh (NetworkObj base v))"
proof (cases v)
  case (Node n)
  show ?thesis
    unfolding Node obj_getNML.simps obj_getNML_h.simps Node_getNML_def Node_getNML_h_def let_as_step
    by (rule refines_then, rule refines_NetworkObject_getNML [OF call])
       (rule sim_steps sim_relation [OF call] sim_nested [OF call])+
next
  case (Port p)
  show ?thesis
    unfolding Port obj_getNML.simps obj_getNML_h.simps Port_getNML_def Port_getNML_h_def let_as_step
    by (rule refines_then, rule refines_NetworkObject_getNML [OF call])
       (rule sim_steps sim_relation [OF call] sim_nested [OF call])+
next
  case (Link l)
  show ?thesis
    unfolding Link obj_getNML.simps obj_getNML_h.simps Link_getNML_def Link_getNML_h_def let_as_step
    by (rule refines_then, rule refines_NetworkObject_getNML [OF call])
       (rule sim_steps sim_relation [OF call] sim_nested [OF call])+
next
  case (SwitchingService x)
  show ?thesis
    unfolding SwitchingService obj_getNML.simps obj_getNML_h.simps
      SwitchingService_getNML_def SwitchingService_getNML_h_def let_as_step
    by (rule refines_then, rule refines_NetworkObject_getNML [OF call])
       (rule sim_steps sim_relation [OF call] sim_nested [OF call])+
next
  case (AdaptationService x)
  show ?thesis
    unfolding AdaptationService obj_getNML.simps obj_getNML_h.simps
      AdaptationService_getNML_def AdaptationService_getNML_h_def let_as_step
    by (rule refines_then, rule refines_NetworkObject_getNML [OF call])
       (rule sim_steps sim_relation [OF call] sim_nested [OF call])+
next
  case (DeadaptationService x)
  show ?thesis
    unfolding DeadaptationService obj_getNML.simps obj_getNML_h.simps
      DeadaptationService_getNML_def DeadaptationService_getNML_h_def let_as_step
    by (rule refines_then, rule refines_NetworkObject_getNML [OF call])
       (rule sim_steps sim_relation [OF call] sim_nested [OF call])+
next
  case (Topology x)
  show ?thesis
    unfolding Topology obj_getNML.simps obj_getNML_h.simps
      Topology_getNML_def Topology_getNML_h_def let_as_step
    by (rule refines_then, rule refines_NetworkObject_getNML [OF call])
       (rule sim_steps sim_relation [OF call] sim_nested [OF call])+
next
  case (PortGroup g)
  show ?thesis unfolding PortGroup obj_getNML.simps obj_getNML_h.simps
    by (rule refines_NetworkObject_getNML [OF call])
next
  case (LinkGroup g)
  show ?thesis unfolding LinkGroup obj_getNML.simps obj_getNML_h.simps
    by (rule refines_NetworkObject_getNML [OF call])
next
  case (BidirectionalPort g)
  show ?thesis unfolding BidirectionalPort obj_getNML.simps obj_getNML_h.simps
    by (rule refines_NetworkObject_getNML [OF call])
next
  case (BidirectionalLink g)
  show ?thesis unfolding BidirectionalLink obj_getNML.simps obj_getNML_h.simps
    by (rule refines_NetworkObject_getNML [OF call])
qed

lemma Location_getNML_steps:
  "Inr (Location_getNML l) =
     and_then (Inr (Element ''Location'' [] [])) (\<lambda>t.
     and_then (Inr (attrib_if_set t ''id'' (Location.priv_identification l))) (\<lambda>t.
     and_then (Inr (attrib_if_set t ''name'' (Location.priv_name l))) (\<lambda>t.
     and_then (Inr (attrib_if_set t ''long'' (longitude l))) (\<lambda>t.
     and_then (Inr (attrib_if_set t ''lat'' (latitude l))) (\<lambda>t.
     and_then (Inr (attrib_if_set t ''alt'' (altitude l))) (\<lambda>t.
     and_then (Inr (attrib_if_set t ''unlocode'' (unlocode l))) (\<lambda>t.
     Inr (attrib_if_set t ''address'' (address l)))))))))"
  by (simp add: Location_getNML_def Let_def)

lemma Lifetime_getNML_steps:
  "Inr (Lifetime_getNML l) =
     and_then (Inr (Element ''Lifetime'' [] [])) (\<lambda>t.
     and_then (Inr (attrib_if_set t ''start'' (start l))) (\<lambda>t.
     Inr (attrib_if_set t ''end'' (end_time l))))"
  by (simp add: Lifetime_getNML_def Let_def)

lemma Label_getNML_steps:
  "Inr (Label_getNML l) =
     and_then (Inr (Element ''Label'' [] [])) (\<lambda>t.
     and_then (Inr (attrib_if_set t ''labeltype'' (Label.labeltype l))) (\<lambda>t.
     Inr (attrib_if_set t ''value'' (label_value l))))"
  by (simp add: Label_getNML_def Let_def)

lemma refines_raise: "refines s (Inl e) (\<lambda>parent h. (Inl e, h))"
  by (rule refinesI) simp_all

lemma refines_obj_getNML:
  assumes call: "\<And>x. refines s (call x) (callh x)"
  shows "refines s (obj_getNML call ob) (obj_getNML_h callh ob)"
proof (cases ob)
  case (NetworkObj base v)
  show ?thesis unfolding NetworkObj by (rule refines_variant_getNML [OF call])
next
  case (Location l)
  show ?thesis
    unfolding Location obj_getNML.simps obj_getNML_h.simps Location_getNML_steps
      Location_getNML_h_def
    by (rule refines_new) (rule sim_steps)+
next
  case (Lifetime l)
  show ?thesis
    unfolding Lifetime obj_getNML.simps obj_getNML_h.simps Lifetime_getNML_steps
      Lifetime_getNML_h_def
    by (rule refines_new) (rule sim_steps)+
next
  case (Label l)
  show ?thesis
    unfolding Label obj_getNML.simps obj_getNML_h.simps Label_getNML_steps Label_getNML_h_def
    by (rule refines_new) (rule sim_steps)+
next
  case (LabelGroup g)
  show ?thesis unfolding LabelGroup obj_getNML.simps obj_getNML_h.simps by (rule refines_raise)
next
  case OrderedList
  show ?thesis unfolding OrderedList obj_getNML.simps obj_getNML_h.simps by (rule refines_raise)
next
  case ListItem
  show ?thesis unfolding ListItem obj_getNML.simps obj_getNML_h.simps by (rule refines_raise)
qed

lemma refines_getNML: "refines s (getNML n s r) (getNML_h n r)"
proof (induction n arbitrary: r)
  case 0
  show ?case by (simp add: refines_raise)
next
  case (Suc n)
  show ?case
  proof (rule refinesI)
    fix h parent t
    assume s: "store_of h = s" and v: "valid_parent h parent" and ret: "getNML (Suc n) s r = Inr t"
    then obtain ob where ob: "s r = Some ob" "obj_getNML (getNML n s) ob = Inr t"
      by (auto split: option.splits)
    with s have cell: "r < length h" "h ! r = Obj ob"
      by (auto simp: store_of_def split: if_splits cell.splits)
    have "refines s (obj_getNML (getNML n s) ob) (obj_getNML_h (getNML_h n) ob)"
      by (rule refines_obj_getNML) (rule Suc)
    from refinesD_Inr [OF this s v ob(2)] cell
    show "getNML_h (Suc n) r parent h
            = (Inr (length h), add_kid parent (length h) h @ layout (length h) t)"
      by simp
  next
    fix h parent e
    assume s: "store_of h = s" and v: "valid_parent h parent" and err: "getNML (Suc n) s r = Inl e"
    show "\<exists>h'. getNML_h (Suc n) r parent h = (Inl e, h') \<and> store_of h' = s"
    proof (cases "s r")
      case None
      with err have "e = AttributeError" by simp
      moreover from None s have "\<not> (r < length h \<and> (\<exists>ob. h ! r = Obj ob))"
        by (auto simp: store_of_def split: if_splits)
      ultimately show ?thesis using s by (auto split: cell.splits)
    next
      case (Some ob)
      with err have e: "obj_getNML (getNML n s) ob = Inl e" by simp
      from Some s have cell: "r < length h" "h ! r = Obj ob"
        by (auto simp: store_of_def split: if_splits cell.splits)
      have "refines s (obj_getNML (getNML n s) ob) (obj_getNML_h (getNML_h n) ob)"
        by (rule refines_obj_getNML) (rule Suc)
      from refinesD_Inl [OF this s v e] cell show ?thesis by simp
    qed
  qed
qed

lemma C9:
  "case getNML_h n root None h of
     (Inr this, h1) \<Rightarrow>
       (\<exists>t. this = length h \<and> h1 = h @ layout (length h) t
          \<and> getNML_h n root None h1 = (Inr (length h1), h1 @ layout (length h1) t))
   | (Inl e, h1) \<Rightarrow>
       store_of h1 = store_of h \<and> (\<exists>h2. getNML_h n root None h1 = (Inl e, h2))"
proof (cases "getNML n (store_of h) root")
  case (Inr t)
  have v: "valid_parent h None" by (simp add: valid_parent_def)
  from refinesD_Inr [OF refines_getNML refl v Inr]
  have first: "getNML_h n root None h = (Inr (length h), h @ layout (length h) t)"
    by (simp add: add_kid_def)
  let ?h1 = "h @ layout (length h) t"
  have v1: "valid_parent ?h1 None" by (simp add: valid_parent_def)
  have "getNML n (store_of ?h1) root = Inr t" using Inr by simp
  from refinesD_Inr [OF refines_getNML refl v1 this]
  have "getNML_h n root None ?h1 = (Inr (length ?h1), ?h1 @ layout (length ?h1) t)"
    by (simp add: add_kid_def)
  then have "\<exists>t'. length h = length h \<and> ?h1 = h @ layout (length h) t'
      \<and> getNML_h n root None ?h1 = (Inr (length ?h1), ?h1 @ layout (length ?h1) t')"
    by blast
  then show ?thesis by (simp only: first prod.case sum.case)
next
  case (Inl e)
  have v: "valid_parent h None" by (simp add: valid_parent_def)
  from refinesD_Inl [OF refines_getNML refl v Inl]
  obtain h1 where first: "getNML_h n root None h = (Inl e, h1)" "store_of h1 = store_of h"
    by blast
  have v1: "valid_parent h1 None" by (simp add: valid_parent_def)
  have "getNML n (store_of h1) root = Inl e" using Inl first(2) by simp
  from refinesD_Inl [OF refines_getNML refl v1 this]
  have "\<exists>h2. getNML_h n root None h1 = (Inl e, h2)" by blast
  with first show ?thesis by simp
qed

lemma kid_addrs_length [simp]: "length (kid_addrs a cs) = length cs"
  by (induction cs arbitrary: a) simp_all

lemma nodes_pos: "0 < nodes t"
  by (cases t) simp

lemma layouts_inject:
  assumes "\<And>c c' a. c \<in> set cs \<Longrightarrow> layout a c = layout a c' \<Longrightarrow> c = c'"
    and "kid_addrs a cs = kid_addrs a cs'"
    and "layouts a cs = layouts a cs'"
  shows "cs = cs'"
  using assms
proof (induction cs arbitrary: a cs')
  case Nil
  then show ?case by (cases cs') simp_all
next
  case (Cons c cs)
  from Cons.prems(2) obtain c' cs1 where cs': "cs' = c' # cs1"
    by (cases cs') simp_all
  have n: "nodes c = nodes c'"
  proof (cases cs)
    case Nil
    with Cons.prems(2) cs' have "cs1 = []" by (cases cs1) simp_all
    with Nil Cons.prems(3) cs' have "layout a c = layout a c'" by simp
    then have "length (layout a c) = length (layout a c')" by simp
    then show ?thesis by (simp add: length_layout)
  next
    case (Cons d ds)
    with Cons.prems(2) cs' obtain d' ds' where "cs1 = d' # ds'"
      by (cases cs1) simp_all
    with Cons Cons.prems(2) cs' show ?thesis by simp
  qed
  from Cons.prems(3) cs' have "layout a c @ layouts (a + nodes c) cs
      = layout a c' @ layouts (a + nodes c') cs1" by simp
  with n have eq: "layout a c = layout a c'" "layouts (a + nodes c) cs = layouts (a + nodes c) cs1"
    by (simp_all add: length_layout)
  from Cons.prems(1) [of c a c'] eq(1) have c: "c = c'" by simp
  from Cons.prems(2) cs' n have k: "kid_addrs (a + nodes c) cs = kid_addrs (a + nodes c) cs1"
    by simp
  have "cs = cs1"
    using Cons.prems(1) k eq(2) by (intro Cons.IH [of "a + nodes c" cs1]) auto
  with c cs' show ?case by simp
qed

lemma layout_inject: "layout b t = layout b t' \<Longrightarrow> t = t'"
proof (induction t arbitrary: b t')
  case (Element tg at cs)
  obtain tg' at' cs' where t': "t' = Element tg' at' cs'" by (cases t')
  from Element.prems t' have eq: "tg = tg'" "at = at'"
    "kid_addrs (Suc b) cs = kid_addrs (Suc b) cs'" "layouts (Suc b) cs = layouts (Suc b) cs'"
    by simp_all
  have "cs = cs'"
    using Element.IH eq(3,4) by (intro layouts_inject [of cs "Suc b" cs']) auto
  with eq t' show ?case by simp
qed

section \<open>The claims\<close>

text \<open>
  C1 says that a Topology \<open>T\<close> on which \<^verbatim>\<open>has_node(nodeA)\<close> was called, where \<^verbatim>\<open>nodeA\<close> had
  \<^verbatim>\<open>has_inbound_port(portX)\<close> called and \<^verbatim>\<open>portX.identification\<close> was set to
  \<^verbatim>\<open>urn:ogf:network:example.org:port:x\<close>, serializes to a root element \<^verbatim>\<open>Topology\<close> bound to
  the namespace \<^verbatim>\<open>nml\<close>, with the nested relations and the port's \<^verbatim>\<open>id\<close>. The code does not
  get there. The calls \<^verbatim>\<open>Topology()\<close>, \<^verbatim>\<open>Node()\<close> and \<^verbatim>\<open>Port()\<close> that the scenario starts
  from raise \<^verbatim>\<open>TypeError\<close>. On instances that hold the attributes of the initialiser
  bodies, with a validator that accepts the URI, the three calls succeed and \<^verbatim>\<open>getNML\<close>
  returns the nested elements, but no element is bound to a namespace: every tag is the
  bare class name, and the namespace map is stored as an attribute called \<^verbatim>\<open>nsmap\<close> of
  the Topology, Node and Port elements (so the Port carries \<^verbatim>\<open>nsmap\<close> besides \<^verbatim>\<open>id\<close>).
\<close>

theorem topology_node_port_scenario:
  "Topology_new = Inl TypeError \<and> Node_new = Inl TypeError \<and> Port_new = Inl TypeError
   \<and> (\<exists>s'. seq (Topology_has_node 0 1)
          (seq (Node_has_inbound_port 1 2)
            (NetworkObject_identification_setter (\<lambda>u. CHR '':'' \<in> set u) 2
               ''urn:ogf:network:example.org:port:x''))
          [0 \<mapsto> Topology_blank, 1 \<mapsto> Node_blank, 2 \<mapsto> Port_blank] = (Inr (), s')
     \<and> getNML 3 s' 0 =
         Inr (Element ''Topology'' [(''nsmap'', Dict NAMESPACES)] [
           Element ''Relation'' [(''type'', Str ''hasNode'')] [
             Element ''Node'' [(''nsmap'', Dict NAMESPACES)] [
               Element ''Relation'' [(''type'', Str ''hasInboundPort'')] [
                 Element ''Port''
                   [(''nsmap'', Dict NAMESPACES),
                    (''id'', Str ''urn:ogf:network:example.org:port:x'')] []]]]]))"
  by (simp add: eval_nat_numeral seq_def Topology_has_node_def Node_has_inbound_port_def
      NetworkObject_identification_setter_def init_defs getNML_defs)

text \<open>
  C2. For every NetworkObject and every string \<open>u\<close>: if the validator accepts \<open>u\<close> as an
  absolute URI with a scheme, assigning \<open>u\<close> to \<^verbatim>\<open>identification\<close> succeeds and the getter
  then returns \<open>u\<close>; otherwise the assignment raises \<^verbatim>\<open>IdError\<close>, the store is the one
  before the call, and the getter returns what it returned before.
\<close>

theorem identification_setter_valid_or_IdError:
  assumes "s self = Some (NetworkObj base v)"
  shows "case NetworkObject_identification_setter is_valid_uri self u s of
           (res, s') \<Rightarrow>
             if is_valid_uri u
             then res = Inr () \<and> NetworkObject_identification self s' = (Inr (Some u), s')
             else res = Inl IdError \<and> s' = s
                  \<and> NetworkObject_identification self s' = NetworkObject_identification self s"
  using assms
  by (simp add: NetworkObject_identification_setter_def NetworkObject_identification_def)

text \<open>An accepted and a rejected candidate on a new BidirectionalLink.\<close>

theorem identification_setter_valid_or_IdError_witness:
  "(case NetworkObject_identification_setter (\<lambda>u. CHR '':'' \<in> set u) 0
           ''urn:ogf:network:example.org:port:x'' [0 \<mapsto> BidirectionalLink_blank] of
      (res, s') \<Rightarrow> res = Inr ()
        \<and> NetworkObject_identification 0 s'
            = (Inr (Some ''urn:ogf:network:example.org:port:x''), s'))
   \<and> (case NetworkObject_identification_setter (\<lambda>u. CHR '':'' \<in> set u) 0 ''port-x''
           [0 \<mapsto> BidirectionalLink_blank] of
      (res, s') \<Rightarrow> res = Inl IdError \<and> s' = [0 \<mapsto> BidirectionalLink_blank]
        \<and> NetworkObject_identification 0 s' = (Inr None, s'))"
  using
    identification_setter_valid_or_IdError [where s = "[0 \<mapsto> BidirectionalLink_blank]" and self = 0
      and is_valid_uri = "\<lambda>u. CHR '':'' \<in> set u"
      and u = "''urn:ogf:network:example.org:port:x''"]
    identification_setter_valid_or_IdError [where s = "[0 \<mapsto> BidirectionalLink_blank]" and self = 0
      and is_valid_uri = "\<lambda>u. CHR '':'' \<in> set u" and u = "''port-x''"]
  by (simp add: init_defs NetworkObject_identification_def split: prod.splits)

text \<open>
  C3, as amended. For network objects \<open>a\<close> and \<open>b\<close> of the same concrete class,
  \<^verbatim>\<open>a.is_alias(b)\<close> succeeds and appends \<open>b\<close> to the alias collection of \<open>a\<close>; whenever the
  serialization of \<open>a\<close> returned before the call and the serialization of \<open>b\<close> returns after
  it (no chain of relations leads from \<open>b\<close> back to \<open>a\<close>), the serialization of \<open>a\<close> after the
  call returns, and its element has a \<^verbatim>\<open>Relation\<close> child of type \<^verbatim>\<open>isAlias\<close> around the full
  serialization of \<open>b\<close>. For \<open>a\<close> and \<open>b\<close> of different classes the call raises
  \<^verbatim>\<open>IsAliasError\<close> and leaves the store, hence the alias collection and every
  serialization, as they were.
\<close>

theorem is_alias_same_class_relation:
  assumes "s a = Some (NetworkObj base v)" and "s b = Some ob"
  shows "let s' = s(a \<mapsto> NetworkObj (base\<lparr>is_alias_network_objects :=
                     is_alias_network_objects base @ [b]\<rparr>) v)
         in if class_name ob = class_name (NetworkObj base v)
            then NetworkObject_is_alias a b s = (Inr (), s')
               \<and> (\<forall>n ea eb. getNML n s a = Inr ea \<and> getNML n s' b = Inr eb \<longrightarrow>
                    (\<exists>ea'. getNML (Suc n) s' a = Inr ea'
                       \<and> Element ''Relation'' [(''type'', Str ''isAlias'')] [eb]
                            \<in> set (children ea')))
            else NetworkObject_is_alias a b s = (Inl IsAliasError, s)"
  using assms getNML_is_alias_appended [of s a base v _ _ b]
  by (auto simp: NetworkObject_is_alias_def Let_def)

text \<open>
  Two new BidirectionalLink objects, and a BidirectionalLink with a Location: all of them
  objects that the calls of their classes return.
\<close>

theorem is_alias_same_class_relation_witness:
  "BidirectionalLink_new = Inr BidirectionalLink_blank
   \<and> (\<exists>ea'. getNML 2 (snd (NetworkObject_is_alias 0 1
          [0 \<mapsto> BidirectionalLink_blank, 1 \<mapsto> BidirectionalLink_blank])) 0 = Inr ea'
       \<and> Element ''Relation'' [(''type'', Str ''isAlias'')]
            [Element ''BidirectionalLink'' [(''nsmap'', Dict NAMESPACES)] []]
            \<in> set (children ea'))
   \<and> NetworkObject_is_alias 0 1 [0 \<mapsto> BidirectionalLink_blank, 1 \<mapsto> Location_blank]
       = (Inl IsAliasError, [0 \<mapsto> BidirectionalLink_blank, 1 \<mapsto> Location_blank])"
proof -
  note same = is_alias_same_class_relation
     [where s = "[0 \<mapsto> BidirectionalLink_blank, 1 \<mapsto> BidirectionalLink_blank]"
      and a = 0 and b = 1 and base = NetworkObject_blank and ob = BidirectionalLink_blank
      and v = "BidirectionalLink BidirectionalLink_attrs"]
  note other = is_alias_same_class_relation
     [where s = "[0 \<mapsto> BidirectionalLink_blank, 1 \<mapsto> Location_blank]"
      and a = 0 and b = 1 and base = NetworkObject_blank and ob = Location_blank
      and v = "BidirectionalLink BidirectionalLink_attrs"]
  show ?thesis
    using same other
    apply (simp add: init_defs)
    apply (simp add: eval_nat_numeral getNML_defs)
    done
qed

text \<open>
  C3 as stated fails where the new alias closes a cycle: two new BidirectionalLink objects
  (the class whose call returns an object), the second already an alias of the first.
  \<^verbatim>\<open>is_alias\<close> of the first with the second succeeds, and afterwards no recursion depth
  lets the serialization of the first return.
\<close>

theorem is_alias_cycle_never_serializes:
  "BidirectionalLink_new = Inr BidirectionalLink_blank
   \<and> fst (NetworkObject_is_alias 0 1
          (snd (NetworkObject_is_alias 1 0
             [0 \<mapsto> BidirectionalLink_blank, 1 \<mapsto> BidirectionalLink_blank]))) = Inr ()
   \<and> \<not> (\<exists>n e. getNML n
          (snd (NetworkObject_is_alias 0 1
             (snd (NetworkObject_is_alias 1 0
                [0 \<mapsto> BidirectionalLink_blank, 1 \<mapsto> BidirectionalLink_blank])))) 0 = Inr e)"
proof -
  let ?s = "snd (NetworkObject_is_alias 0 1
             (snd (NetworkObject_is_alias 1 0
                [0 \<mapsto> BidirectionalLink_blank, 1 \<mapsto> BidirectionalLink_blank])))"
  have "(0, 1) \<in> edges ?s" and "(1, 0) \<in> edges ?s"
    by (simp_all add: edges_def NetworkObject_is_alias_def init_defs NetworkObject_related_def)
  then have "(0, 0) \<in> (edges ?s)\<^sup>+" by (rule trancl_into_trancl [OF r_into_trancl])
  from getNML_cycle [OF this] have "\<not> (\<exists>n e. getNML n ?s 0 = Inr e)" by blast
  moreover have "fst (NetworkObject_is_alias 0 1
          (snd (NetworkObject_is_alias 1 0
             [0 \<mapsto> BidirectionalLink_blank, 1 \<mapsto> BidirectionalLink_blank]))) = Inr ()"
    by (simp add: NetworkObject_is_alias_def init_defs)
  moreover have "BidirectionalLink_new = Inr BidirectionalLink_blank"
    by (simp add: init_defs)
  ultimately show ?thesis by blast
qed

text \<open>
  C4 says that a PortGroup or LinkGroup whose encoding is a non-empty string serializes
  with an \<^verbatim>\<open>encoding\<close> attribute. The code does not: neither class defines \<^verbatim>\<open>getNML\<close>, and the
  inherited one knows nothing of \<^verbatim>\<open>_encoding\<close>. A PortGroup after \<^verbatim>\<open>encoding = 'e'\<close> and a
  LinkGroup whose \<^verbatim>\<open>_encoding\<close> is \<^verbatim>\<open>'e'\<close> both serialize to an element whose only attribute
  is \<^verbatim>\<open>nsmap\<close>.
\<close>

theorem group_encoding_not_serialized:
  "getNML 1 (snd (PortGroup_encoding_setter 0 ''e'' [0 \<mapsto> PortGroup_blank])) 0 =
     Inr (Element ''PortGroup'' [(''nsmap'', Dict NAMESPACES)] [])
   \<and> getNML 1 [0 \<mapsto> NetworkObj NetworkObject_blank
        (LinkGroup \<lparr>LinkGroup.has_label_group_group = None, LinkGroup.has_link_links = [],
           is_serial_compound_link_link_groups = [], LinkGroup.priv_encoding = Some ''e''\<rparr>)] 0 =
     Inr (Element ''LinkGroup'' [(''nsmap'', Dict NAMESPACES)] [])"
  by (simp add: eval_nat_numeral PortGroup_encoding_setter_def init_defs getNML_defs)

text \<open>
  C5 says that a Node wraps each outbound port in a \<^verbatim>\<open>Relation\<close> of type
  \<^verbatim>\<open>hasOutboundPort\<close>, the string Topology uses. The code writes \<^verbatim>\<open>hasOutoundPort\<close> for a
  Node: a node and a topology, each with one outbound port.
\<close>

theorem node_outbound_relation_type:
  "getNML 2 (snd (Node_has_outbound_port 0 1 [0 \<mapsto> Node_blank, 1 \<mapsto> Port_blank])) 0 =
     Inr (Element ''Node'' [(''nsmap'', Dict NAMESPACES)] [
            Element ''Relation'' [(''type'', Str ''hasOutoundPort'')] [
              Element ''Port'' [(''nsmap'', Dict NAMESPACES)] []]])
   \<and> getNML 2 (snd (Topology_has_outbound_port 0 1 [0 \<mapsto> Topology_blank, 1 \<mapsto> Port_blank])) 0 =
     Inr (Element ''Topology'' [(''nsmap'', Dict NAMESPACES)] [
            Element ''Relation'' [(''type'', Str ''hasOutboundPort'')] [
              Element ''Port'' [(''nsmap'', Dict NAMESPACES)] []]])"
  by (simp add: eval_nat_numeral Node_has_outbound_port_def Topology_has_outbound_port_def
      init_defs getNML_defs)





text \<open>
  C8. For every AdaptationService and every object \<open>e\<close>: if the class of \<open>e\<close> is neither
  Port nor PortGroup, \<^verbatim>\<open>can_provide_port(e)\<close> raises \<^verbatim>\<open>CanProvidePortError\<close> and leaves the
  store as it was, so \<^verbatim>\<open>can_provide_port_ports\<close> and every later serialization are those
  from before the call; if it is Port or PortGroup, the call succeeds and appends \<open>e\<close>.
\<close>

theorem can_provide_port_validates:
  assumes "s self = Some (NetworkObj base (AdaptationService a))" and "s e = Some ob"
  shows "AdaptationService_can_provide_port self e s =
           (if class_name ob = ''Port'' \<or> class_name ob = ''PortGroup''
            then (Inr (), s(self \<mapsto> NetworkObj base (AdaptationService
                    (a\<lparr>AdaptationService.can_provide_port_ports :=
                         AdaptationService.can_provide_port_ports a @ [e]\<rparr>))))
            else (Inl CanProvidePortError, s))"
  using assms by (simp add: AdaptationService_can_provide_port_def)

text \<open>An adaptation service is offered a link, then a port.\<close>

theorem can_provide_port_validates_witness:
  "AdaptationService_can_provide_port 0 1
      [0 \<mapsto> AdaptationService_blank, 1 \<mapsto> Link_blank, 2 \<mapsto> Port_blank]
     = (Inl CanProvidePortError, [0 \<mapsto> AdaptationService_blank, 1 \<mapsto> Link_blank, 2 \<mapsto> Port_blank])
   \<and> fst (AdaptationService_can_provide_port 0 2
      [0 \<mapsto> AdaptationService_blank, 1 \<mapsto> Link_blank, 2 \<mapsto> Port_blank]) = Inr ()
   \<and> getNML 2 (snd (AdaptationService_can_provide_port 0 2
      [0 \<mapsto> AdaptationService_blank, 1 \<mapsto> Link_blank, 2 \<mapsto> Port_blank])) 0
     = Inr (Element ''AdaptationService'' [(''nsmap'', Dict NAMESPACES)] [Element ''Port'' [(''nsmap'', Dict NAMESPACES)] []])"
  using
    can_provide_port_validates
      [where s = "[0 \<mapsto> AdaptationService_blank, 1 \<mapsto> Link_blank, 2 \<mapsto> Port_blank]"
        and self = 0 and e = 1 and ob = Link_blank and base = NetworkObject_blank]
    can_provide_port_validates
      [where s = "[0 \<mapsto> AdaptationService_blank, 1 \<mapsto> Link_blank, 2 \<mapsto> Port_blank]"
        and self = 0 and e = 2 and ob = Port_blank and base = NetworkObject_blank]
  by (simp add: init_defs eval_nat_numeral getNML_defs)

text \<open>
  C9. Two successive calls of \<^verbatim>\<open>getNML\<close> on the same root, with no parent and nothing
  done to the graph in between, produce identical trees, and the first does not change
  the result of the second. On the heap: if the first call returns, it has left every
  cell that was there as it was, objects and elements alike, and has appended the cells
  of a tree \<open>t\<close>; the second call, run on the heap the first one left, returns as well,
  again leaves every cell as it was, the first tree included, and appends the cells of
  the same \<open>t\<close>: the same elements in the same order with the same attributes. If the
  first call raises, it leaves the objects as they were and the second call raises the
  same exception.
\<close>

theorem getNML_twice_same_tree:
  "case getNML_h n root None h of
     (Inr this, h1) \<Rightarrow>
       (\<exists>t. getNML n (store_of h) root = Inr t
          \<and> this = length h \<and> h1 = h @ layout (length h) t
          \<and> getNML_h n root None h1 = (Inr (length h1), h1 @ layout (length h1) t))
   | (Inl e, h1) \<Rightarrow>
       store_of h1 = store_of h \<and> (\<exists>h2. getNML_h n root None h1 = (Inl e, h2))"
proof (cases "getNML n (store_of h) root")
  case (Inr t)
  have v: "valid_parent h None" by (simp add: valid_parent_def)
  from refinesD_Inr [OF refines_getNML refl v Inr]
  have first: "getNML_h n root None h = (Inr (length h), h @ layout (length h) t)"
    by (simp add: add_kid_def)
  let ?h1 = "h @ layout (length h) t"
  have v1: "valid_parent ?h1 None" by (simp add: valid_parent_def)
  have "getNML n (store_of ?h1) root = Inr t" using Inr by simp
  from refinesD_Inr [OF refines_getNML refl v1 this]
  have "getNML_h n root None ?h1 = (Inr (length ?h1), ?h1 @ layout (length ?h1) t)"
    by (simp add: add_kid_def)
  with Inr have "\<exists>t'. getNML n (store_of h) root = Inr t'
      \<and> length h = length h \<and> ?h1 = h @ layout (length h) t'
      \<and> getNML_h n root None ?h1 = (Inr (length ?h1), ?h1 @ layout (length ?h1) t')"
    by blast
  then show ?thesis by (simp only: first prod.case sum.case)
next
  case (Inl e)
  have v: "valid_parent h None" by (simp add: valid_parent_def)
  from refinesD_Inl [OF refines_getNML refl v Inl]
  obtain h1 where first: "getNML_h n root None h = (Inl e, h1)" "store_of h1 = store_of h"
    by blast
  have v1: "valid_parent h1 None" by (simp add: valid_parent_def)
  have "getNML n (store_of h1) root = Inl e" using Inl first(2) by simp
  from refinesD_Inl [OF refines_getNML refl v1 this]
  have "\<exists>h2. getNML_h n root None h1 = (Inl e, h2)" by blast
  with first show ?thesis by simp
qed

text \<open>
  A BidirectionalLink with one alias: the first call writes three cells from address 2 on,
  the second the same three from address 5 on.
\<close>

theorem getNML_twice_same_tree_witness:
  "getNML_h 2 0 None two_links =
     (Inr 2, two_links @
        [Elem \<lparr>e_tag = ''BidirectionalLink'', e_attrib = [(''nsmap'', Dict NAMESPACES)],
               e_children = [3]\<rparr>,
         Elem \<lparr>e_tag = ''Relation'', e_attrib = [(''type'', Str ''isAlias'')],
               e_children = [4]\<rparr>,
         Elem \<lparr>e_tag = ''BidirectionalLink'', e_attrib = [(''nsmap'', Dict NAMESPACES)],
               e_children = []\<rparr>])
   \<and> getNML_h 2 0 None (snd (getNML_h 2 0 None two_links)) =
     (Inr 5, two_links @
        [Elem \<lparr>e_tag = ''BidirectionalLink'', e_attrib = [(''nsmap'', Dict NAMESPACES)],
               e_children = [3]\<rparr>,
         Elem \<lparr>e_tag = ''Relation'', e_attrib = [(''type'', Str ''isAlias'')],
               e_children = [4]\<rparr>,
         Elem \<lparr>e_tag = ''BidirectionalLink'', e_attrib = [(''nsmap'', Dict NAMESPACES)],
               e_children = []\<rparr>,
         Elem \<lparr>e_tag = ''BidirectionalLink'', e_attrib = [(''nsmap'', Dict NAMESPACES)],
               e_children = [6]\<rparr>,
         Elem \<lparr>e_tag = ''Relation'', e_attrib = [(''type'', Str ''isAlias'')],
               e_children = [7]\<rparr>,
         Elem \<lparr>e_tag = ''BidirectionalLink'', e_attrib = [(''nsmap'', Dict NAMESPACES)],
               e_children = []\<rparr>])"
proof -
  let ?T = "Element ''BidirectionalLink'' [(''nsmap'', Dict NAMESPACES)]
              [Element ''Relation'' [(''type'', Str ''isAlias'')]
                 [Element ''BidirectionalLink'' [(''nsmap'', Dict NAMESPACES)] []]]"
  have first: "getNML_h 2 0 None two_links = (Inr 2, two_links @ layout 2 ?T)"
    by (simp add: eval_nat_numeral two_links_def init_defs getNML_h_defs)
  from getNML_twice_same_tree [where n = 2 and root = 0 and h = two_links]
  have "\<exists>t. getNML 2 (store_of two_links) 0 = Inr t
      \<and> 2 = length two_links
      \<and> two_links @ layout 2 ?T = two_links @ layout (length two_links) t
      \<and> getNML_h 2 0 None (two_links @ layout 2 ?T)
          = (Inr (length (two_links @ layout 2 ?T)),
             (two_links @ layout 2 ?T) @ layout (length (two_links @ layout 2 ?T)) t)"
    by (simp only: first prod.case sum.case)
  then obtain t where
    t: "two_links @ layout 2 ?T = two_links @ layout (length two_links) t" and
    second: "getNML_h 2 0 None (two_links @ layout 2 ?T)
          = (Inr (length (two_links @ layout 2 ?T)),
             (two_links @ layout 2 ?T) @ layout (length (two_links @ layout 2 ?T)) t)"
    by blast
  have len: "length two_links = 2" by (simp add: two_links_def)
  from t have "layout 2 ?T = layout 2 t" unfolding len by (rule same_append_eq [THEN iffD1])
  then have "t = ?T" by (rule layout_inject [symmetric])
  with second first len show ?thesis
    by (simp add: eval_nat_numeral)
qed

text \<open>
  C10. For every Link and every label, \<^verbatim>\<open>has_label\<close> on the Link succeeds and changes no
  serialization, that of the Link included: the attribute it assigns, \<^verbatim>\<open>has_label_label\<close>,
  is read by no \<^verbatim>\<open>getNML\<close> that runs on a Link, so the label is never emitted.
\<close>

theorem link_has_label_not_serialized:
  assumes "s self = Some (NetworkObj base (Link l))"
  shows "\<exists>s'. Link_has_label self label s = (Inr (), s') \<and> (\<forall>n r. getNML n s' r = getNML n s r)"
proof -
  let ?s' = "s(self \<mapsto> NetworkObj base (Link (l\<lparr>Link.has_label_label := Some label\<rparr>)))"
  have run: "Link_has_label self label s = (Inr (), ?s')"
    using assms by (simp add: Link_has_label_def)
  have same: "getNML n ?s' = getNML n s" for n
  proof (induction n)
    case 0
    show ?case by (rule ext) simp
  next
    case (Suc n)
    show ?case
    proof (rule ext)
      fix r
      show "getNML (Suc n) ?s' r = getNML (Suc n) s r"
        using assms
        by (cases "r = self") (simp_all add: Link_getNML_def Suc split: option.splits)
    qed
  qed
  from run same show ?thesis by simp
qed

text \<open>A link is given a label; the link serializes as before.\<close>

theorem link_has_label_not_serialized_witness:
  "fst (Link_has_label 0 1 [0 \<mapsto> Link_blank, 1 \<mapsto> Label_blank]) = Inr ()
   \<and> getNML 1 (snd (Link_has_label 0 1 [0 \<mapsto> Link_blank, 1 \<mapsto> Label_blank])) 0
       = Inr (Element ''Link'' [(''nsmap'', Dict NAMESPACES)] [])"
proof -
  from link_has_label_not_serialized
    [where s = "[0 \<mapsto> Link_blank, 1 \<mapsto> Label_blank]" and self = 0 and label = 1
      and base = NetworkObject_blank]
  obtain s' where
    s': "Link_has_label 0 1 [0 \<mapsto> Link_blank, 1 \<mapsto> Label_blank] = (Inr (), s')"
        "\<And>n r. getNML n s' r = getNML n [0 \<mapsto> Link_blank, 1 \<mapsto> Label_blank] r"
    by (auto simp: init_defs)
  have "getNML 1 [0 \<mapsto> Link_blank, 1 \<mapsto> Label_blank] 0 = Inr (Element ''Link'' [(''nsmap'', Dict NAMESPACES)] [])"
    by (simp add: init_defs getNML_defs)
  with s' show ?thesis by simp
qed

end
